theory Spec2Isabelle
  imports Main "HOL-Library.Word" "HOL-Library.Signed_Division" "HOL-Library.Code_Target_Numeral"
begin

section \<open>Machine types, faults and kernel constants\<close>

text \<open>
  The C types of \<^verbatim>\<open>drbd_proc.c\<close>:
  \<^item> \<^verbatim>\<open>unsigned long\<close> is \<open>'l word\<close>, where \<open>LENGTH('l)\<close> is \<^verbatim>\<open>BITS_PER_LONG\<close> (32 or 64);
    \<open>+\<close>, \<open>-\<close> and \<open>*\<close> wrap around modulo \<open>2 ^ LENGTH('l)\<close>, \<open>div\<close> is the unsigned
    quotient and \<open>drop_bit\<close> the logical right shift;
  \<^item> \<^verbatim>\<open>unsigned int\<close> is \<open>32 word\<close>, \<^verbatim>\<open>unsigned long long\<close> is \<open>64 word\<close>;
  \<^item> \<^verbatim>\<open>int\<close> values are HOL integers; where the source adds to one, the model checks
    the result against the range of a 32-bit \<^verbatim>\<open>int\<close>.
\<close>

type_synonym uint = "32 word"
type_synonym ullong = "64 word"

definition UINT_MAX :: uint where
  "UINT_MAX = 4294967295"

definition INT_MAX :: int where
  "INT_MAX = 2147483647"

text \<open>
  What C leaves undefined is a fault of the model: a division or remainder by zero, an
  array read outside the array, a signed addition that leaves the range of \<^verbatim>\<open>int\<close>.
\<close>

datatype fault = DivideByZero | OutOfBounds | IntOverflow

definition bindf :: "fault + 'a \<Rightarrow> ('a \<Rightarrow> fault + 'b) \<Rightarrow> fault + 'b" where
  "bindf m f = (case m of Inl e \<Rightarrow> Inl e | Inr x \<Rightarrow> f x)"

text \<open>
  The operator \<^verbatim>\<open>/\<close> on unsigned operands. Where the divisor is a literal of the source
  (50, 10, 100, 3600, 60, 1000, 1000000) the model writes \<open>div\<close> and \<open>mod\<close>; every other
  division goes through \<open>udiv\<close>.
\<close>

definition udiv :: "'a::len word \<Rightarrow> 'a word \<Rightarrow> fault + 'a word" where
  "udiv a b = (if b = 0 then Inl DivideByZero else Inr (a div b))"

section \<open>The device\<close>

text \<open>
  \<^verbatim>\<open>enum drbd_repl_state\<close> is declared in \<^verbatim>\<open>linux/drbd.h\<close>; the members that
  \<^verbatim>\<open>drbd_proc.c\<close> names are constructors, every other member is \<open>L_OTHER\<close> with its number.
\<close>

datatype drbd_repl_state =
  L_STANDALONE | L_SYNC_SOURCE | L_SYNC_TARGET | L_VERIFY_S | L_VERIFY_T | L_OTHER nat

text \<open>
  The fields of \<^verbatim>\<open>struct drbd_device\<close> that the progress report reads. \<open>repl_state\<close> is
  \<^verbatim>\<open>first_peer_device(device)->repl_state\<close>; \<open>bm_total_weight\<close> and \<open>bm_bits\<close> are the values
  that \<^verbatim>\<open>drbd_bm_total_weight(device)\<close> and \<^verbatim>\<open>drbd_bm_bits(device)\<close> return (the bitmap code is
  in another file). The two mark arrays are declared with \<^verbatim>\<open>DRBD_SYNC_MARKS\<close> entries.
\<close>

record (overloaded) ('l::len) drbd_device =
  repl_state :: drbd_repl_state
  rs_total :: "'l word"
  rs_failed :: "'l word"
  ov_left :: "'l word"
  bm_total_weight :: "'l word"
  bm_bits :: "'l word"
  bm_resync_fo :: "'l word"
  rs_last_mark :: int
  rs_mark_time :: "'l word list"
  rs_mark_left :: "'l word list"
  rs_start :: "'l word"
  rs_paused :: "'l word"
  c_sync_rate :: int

section \<open>\<^verbatim>\<open>drbd_get_syncer_progress\<close>\<close>

text \<open>
  The \<^verbatim>\<open>else\<close> block of \<^verbatim>\<open>drbd_get_syncer_progress\<close> (lines 105 to 109), with its four
  locals as the result; \<open>bl\<close> is \<^verbatim>\<open>*bits_left\<close> and \<open>rs_tot\<close> is \<^verbatim>\<open>device->rs_total\<close>:
  \<^verbatim>\<open>
  unsigned int shift = device->rs_total > UINT_MAX ? 16 : 10;
  unsigned long left = *bits_left >> shift;
  unsigned long total = 1UL + (device->rs_total >> shift);
  unsigned long tmp = 1000UL - left * 1000UL/total;
  \<close>
\<close>

record (overloaded) ('l::len) per_mil_locals =
  pm_shift :: nat
  pm_left :: "'l word"
  pm_total :: "'l word"
  pm_tmp :: "'l word"

definition per_mil_calc :: "'l::len word \<Rightarrow> 'l word \<Rightarrow> fault + 'l per_mil_locals" where
  "per_mil_calc bl rs_tot =
     (let shift = (if rs_tot > ucast UINT_MAX then 16 else 10);
          left = drop_bit shift bl;
          total = 1 + drop_bit shift rs_tot
      in bindf (udiv (left * 1000) total) (\<lambda>q.
           Inr \<lparr>pm_shift = shift, pm_left = left, pm_total = total, pm_tmp = 1000 - q\<rparr>))"

text \<open>
  The two out-parameters of \<^verbatim>\<open>drbd_get_syncer_progress\<close> and the arguments of its
  \<^verbatim>\<open>drbd_warn\<close> call, if the call is made: the replication state, \<^verbatim>\<open>*bits_left\<close>,
  \<^verbatim>\<open>rs_total\<close> and \<^verbatim>\<open>rs_failed\<close>.
\<close>

record (overloaded) ('l::len) syncer_progress =
  bits_left :: "'l word"
  per_mil_done :: uint
  drbd_warn :: "(drbd_repl_state \<times> 'l word \<times> 'l word \<times> 'l word) option"

definition drbd_get_syncer_progress :: "'l::len drbd_device \<Rightarrow> fault + 'l syncer_progress" where
  "drbd_get_syncer_progress device =
     (let bl =
            (if repl_state device = L_VERIFY_S \<or> repl_state device = L_VERIFY_T
             then ov_left device
             else bm_total_weight device - rs_failed device)
      in if bl > rs_total device
         then Inr \<lparr>bits_left = bl, per_mil_done = 0,
                   drbd_warn = Some (repl_state device, bl, rs_total device,
                                     rs_failed device)\<rparr>
         else bindf (per_mil_calc bl (rs_total device)) (\<lambda>l.
                Inr \<lparr>bits_left = bl, per_mil_done = ucast (pm_tmp l),
                     drbd_warn = None\<rparr>))"

section \<open>Constants and macros of the headers\<close>

text \<open>
  \<^verbatim>\<open>drbd_proc.c\<close> uses constants and one macro that \<^verbatim>\<open>drbd_int.h\<close> and the kernel
  configuration define. They are parameters of the model: \<open>HZ\<close> (timer ticks per second),
  \<open>DRBD_SYNC_MARKS\<close> (the length of the two mark arrays), \<open>DRBD_SYNC_MARK_STEP\<close>,
  \<open>BM_BLOCK_SHIFT\<close>, \<open>BM_SECT_PER_BIT\<close>, the macro \<open>Bit2KB\<close> at the type
  \<^verbatim>\<open>unsigned long\<close>, and the module parameter \<open>proc_details\<close>.
\<close>

record (overloaded) ('l::len) kconfig =
  HZ :: int
  DRBD_SYNC_MARKS :: int
  DRBD_SYNC_MARK_STEP :: int
  BM_BLOCK_SHIFT :: nat
  BM_SECT_PER_BIT :: ullong
  Bit2KB :: "'l word \<Rightarrow> 'l word"
  proc_details :: int

section \<open>Operations of C that can fault\<close>

text \<open>The operator \<^verbatim>\<open>+\<close> on two \<^verbatim>\<open>int\<close> operands.\<close>

definition int_add :: "int \<Rightarrow> int \<Rightarrow> fault + int" where
  "int_add a b =
     (if - INT_MAX - 1 \<le> a + b \<and> a + b \<le> INT_MAX then Inr (a + b) else Inl IntOverflow)"

text \<open>The operator \<^verbatim>\<open>-\<close> on two \<^verbatim>\<open>int\<close> operands.\<close>

definition int_sub :: "int \<Rightarrow> int \<Rightarrow> fault + int" where
  "int_sub a b =
     (if - INT_MAX - 1 \<le> a - b \<and> a - b \<le> INT_MAX then Inr (a - b) else Inl IntOverflow)"

text \<open>
  The operator \<^verbatim>\<open>%\<close> on two \<^verbatim>\<open>int\<close> operands: the remainder has the sign of the dividend
  (\<open>smod\<close>), not that of the divisor.
\<close>

definition int_rem :: "int \<Rightarrow> int \<Rightarrow> fault + int" where
  "int_rem a b = (if b = 0 then Inl DivideByZero else Inr (a smod b))"

text \<open>Reading \<^verbatim>\<open>a[i]\<close> with an \<^verbatim>\<open>int\<close> index.\<close>

definition array_read :: "'a list \<Rightarrow> int \<Rightarrow> fault + 'a" where
  "array_read a i =
     (if 0 \<le> i \<and> i < int (length a) then Inr (a ! nat i) else Inl OutOfBounds)"

section \<open>\<^verbatim>\<open>seq_printf\<close>\<close>

text \<open>
  A \<^verbatim>\<open>seq_file\<close> is the text written to it so far; every \<^verbatim>\<open>seq_printf\<close> appends. The
  conversions that the progress report uses:
\<close>

definition digit :: "nat \<Rightarrow> char" where
  "digit d = ''0123456789'' ! d"

fun dec :: "nat \<Rightarrow> string" where
  "dec n = (if n < 10 then [digit n] else dec (n div 10) @ [digit (n mod 10)])"

declare dec.simps [simp del]

definition pad_left :: "char \<Rightarrow> nat \<Rightarrow> string \<Rightarrow> string" where
  "pad_left c w s = replicate (w - length s) c @ s"

text \<open>\<^verbatim>\<open>%u\<close>, \<^verbatim>\<open>%lu\<close> and \<^verbatim>\<open>%llu\<close>; \<^verbatim>\<open>%3u\<close>; \<^verbatim>\<open>%02lu\<close>.\<close>

definition printf_u :: "'a::len word \<Rightarrow> string" where
  "printf_u w = dec (unat w)"

definition printf_3u :: "'a::len word \<Rightarrow> string" where
  "printf_3u w = pad_left (CHR '' '') 3 (dec (unat w))"

definition printf_02u :: "'a::len word \<Rightarrow> string" where
  "printf_02u w = pad_left (CHR ''0'') 2 (dec (unat w))"

text \<open>\<^verbatim>\<open>%d\<close> and \<^verbatim>\<open>%ld\<close>; \<^verbatim>\<open>%3d\<close>; \<^verbatim>\<open>%03ld\<close> (the zeros come after the sign).\<close>

definition printf_d :: "int \<Rightarrow> string" where
  "printf_d i = (if i < 0 then CHR ''-'' # dec (nat (- i)) else dec (nat i))"

definition printf_3d :: "int \<Rightarrow> string" where
  "printf_3d i = pad_left (CHR '' '') 3 (printf_d i)"

definition printf_03d :: "int \<Rightarrow> string" where
  "printf_03d i =
     (if i < 0 then CHR ''-'' # pad_left (CHR ''0'') 2 (dec (nat (- i)))
      else pad_left (CHR ''0'') 3 (dec (nat i)))"

text \<open>
  \<^verbatim>\<open>for (i = i0; i < n; i++) seq_printf(seq, s);\<close> with \<^verbatim>\<open>int\<close> counters: the text that the
  loop appends.
\<close>

function seq_loop :: "int \<Rightarrow> int \<Rightarrow> string \<Rightarrow> string" where
  "seq_loop i n s = (if i < n then s @ seq_loop (i + 1) n s else [])"
  by pat_completeness auto
termination
  by (relation "measure (\<lambda>(i, n, s). nat (n - i))") auto

declare seq_loop.simps [simp del]

section \<open>\<^verbatim>\<open>seq_printf_with_thousands_grouping\<close>\<close>

text \<open>
  The parameter \<^verbatim>\<open>long v\<close> is an integer; in the two branches that divide, \<open>v\<close> is
  positive, where the \<^verbatim>\<open>/\<close> and \<^verbatim>\<open>%\<close> of C are \<open>div\<close> and \<open>mod\<close>.
\<close>

definition seq_printf_with_thousands_grouping :: "int \<Rightarrow> string" where
  "seq_printf_with_thousands_grouping v =
     (if v \<ge> 1000000 then
        printf_d (v div 1000000) @ '','' @
        (let v = v mod 1000000 in printf_03d (v div 1000) @ '','' @ printf_03d (v mod 1000))
      else if v \<ge> 1000 then printf_d (v div 1000) @ '','' @ printf_03d (v mod 1000)
      else printf_d v)"

section \<open>\<^verbatim>\<open>drbd_syncer_progress\<close>\<close>

text \<open>
  Lines 130 to 138, the bar: \<^verbatim>\<open>x = res/50; y = 20-x;\<close>, then the opening bracket, the
  loop from 1 below \<open>x\<close> printing \<^verbatim>\<open>=\<close>, one \<^verbatim>\<open>>\<close>, the loop from 0 below \<open>y\<close> printing
  \<^verbatim>\<open>.\<close>, and the closing bracket. \<open>res / 50\<close> is an unsigned quotient below \<open>2 ^ 31\<close>, so
  the two \<^verbatim>\<open>int\<close> locals hold it and \<open>20 - x\<close> as they are.
\<close>

definition bar_cells :: "uint \<Rightarrow> string" where
  "bar_cells res =
     (let x = uint (res div 50); y = 20 - x
      in seq_loop 1 x ''='' @ ''>'' @ seq_loop 0 y ''.'')"

definition progress_bar :: "uint \<Rightarrow> string" where
  "progress_bar res = [CHR 0x09, CHR ''[''] @ bar_cells res @ ''] ''"

text \<open>Line 179: \<^verbatim>\<open>rt = (dt * (rs_left / (db/100+1)))/100;\<close>\<close>

definition rt_calc :: "'l::len word \<Rightarrow> 'l word \<Rightarrow> 'l word \<Rightarrow> fault + 'l word" where
  "rt_calc dt rs_left db =
     bindf (udiv rs_left (db div 100 + 1)) (\<lambda>q. Inr (dt * q div 100))"

text \<open>The quotient \<^verbatim>\<open>db/dt\<close> of lines 184, 196 and 208, the speed of a window in bits per second.\<close>

definition window_rate :: "'l::len word \<Rightarrow> 'l word \<Rightarrow> fault + 'l word" where
  "window_rate db dt = udiv db dt"

text \<open>
  Lines 171 to 184, the window of about 18 seconds, with the values of the locals
  \<^verbatim>\<open>stalled\<close>, \<^verbatim>\<open>dt\<close>, \<^verbatim>\<open>db\<close>, \<^verbatim>\<open>rt\<close> and \<^verbatim>\<open>dbdt\<close> at line 184 as the result.
\<close>

record (overloaded) ('l::len) short_locals =
  s_stalled :: bool
  s_dt :: "'l word"
  s_db :: "'l word"
  s_rt :: "'l word"
  s_dbdt :: "'l word"

definition short_window ::
  "'l::len kconfig \<Rightarrow> 'l word \<Rightarrow> 'l drbd_device \<Rightarrow> 'l word \<Rightarrow> fault + 'l short_locals" where
  "short_window cfg jiffies device rs_left =
     bindf (int_add (rs_last_mark device) 2) (\<lambda>a.
     bindf (int_rem a (DRBD_SYNC_MARKS cfg)) (\<lambda>i.
     bindf (array_read (rs_mark_time device) i) (\<lambda>mark_time.
     bindf (udiv (jiffies - mark_time) (word_of_int (HZ cfg))) (\<lambda>dt.
     let stalled = (dt > word_of_int (DRBD_SYNC_MARK_STEP cfg * DRBD_SYNC_MARKS cfg));
         dt = (if dt = 0 then dt + 1 else dt)
     in
     bindf (array_read (rs_mark_left device) i) (\<lambda>mark_left.
     let db = mark_left - rs_left in
     bindf (rt_calc dt rs_left db) (\<lambda>rt.
     bindf (window_rate db dt) (\<lambda>q.
     Inr \<lparr>s_stalled = stalled, s_dt = dt, s_db = db, s_rt = rt,
          s_dbdt = Bit2KB cfg q\<rparr>)))))))"

text \<open>
  Lines 191 to 196, the window of about 3 seconds, and lines 204 to 208, the mean since
  the resync started; the values of \<^verbatim>\<open>dt\<close>, \<^verbatim>\<open>db\<close> and \<^verbatim>\<open>dbdt\<close> at lines 196 and 208.
\<close>

record (overloaded) ('l::len) speed_locals =
  w_dt :: "'l word"
  w_db :: "'l word"
  w_dbdt :: "'l word"

definition very_short_window ::
  "'l::len kconfig \<Rightarrow> 'l word \<Rightarrow> 'l drbd_device \<Rightarrow> 'l word \<Rightarrow> fault + 'l speed_locals" where
  "very_short_window cfg jiffies device rs_left =
     bindf (int_add (rs_last_mark device) (DRBD_SYNC_MARKS cfg)) (\<lambda>a.
     bindf (int_sub a 1) (\<lambda>b.
     bindf (int_rem b (DRBD_SYNC_MARKS cfg)) (\<lambda>i.
     bindf (array_read (rs_mark_time device) i) (\<lambda>mark_time.
     bindf (udiv (jiffies - mark_time) (word_of_int (HZ cfg))) (\<lambda>dt.
     let dt = (if dt = 0 then dt + 1 else dt) in
     bindf (array_read (rs_mark_left device) i) (\<lambda>mark_left.
     let db = mark_left - rs_left in
     bindf (window_rate db dt) (\<lambda>q.
     Inr \<lparr>w_dt = dt, w_db = db, w_dbdt = Bit2KB cfg q\<rparr>)))))))"

definition long_window ::
  "'l::len kconfig \<Rightarrow> 'l word \<Rightarrow> 'l drbd_device \<Rightarrow> 'l word \<Rightarrow> fault + 'l speed_locals" where
  "long_window cfg jiffies device rs_left =
     bindf (udiv (jiffies - rs_start device - rs_paused device) (word_of_int (HZ cfg))) (\<lambda>dt.
     let dt = (if dt = 0 then 1 else dt);
         db = rs_total device - rs_left
     in
     bindf (window_rate db dt) (\<lambda>q.
     Inr \<lparr>w_dt = dt, w_db = db, w_dbdt = Bit2KB cfg q\<rparr>))"

text \<open>Lines 222 to 235, the line that is printed when \<^verbatim>\<open>proc_details >= 1\<close>.\<close>

definition sector_pos :: "'l::len kconfig \<Rightarrow> 'l drbd_device \<Rightarrow> fault + string" where
  "sector_pos cfg device =
     (let bits = bm_bits device;
          bit_pos = (if repl_state device = L_VERIFY_S \<or> repl_state device = L_VERIFY_T
                     then bits - ov_left device
                     else bm_resync_fo device)
      in bindf (udiv bit_pos (bits div 100 + 1)) (\<lambda>q.
           Inr ([CHR 0x09] @ printf_3d (sint (ucast q :: uint)) @ ''% sector pos: '' @
                printf_u ((ucast bit_pos :: ullong) * BM_SECT_PER_BIT cfg) @ ''/'' @
                printf_u ((ucast bits :: ullong) * BM_SECT_PER_BIT cfg) @ [CHR 0x0A])))"

text \<open>
  The whole function. Its result is the text appended to the \<^verbatim>\<open>seq_file\<close>, the
  \<^verbatim>\<open>drbd_warn\<close> call of \<^verbatim>\<open>drbd_get_syncer_progress\<close> if there was one, and the values of
  the locals: \<^verbatim>\<open>rs_left\<close> and \<^verbatim>\<open>res\<close>, and those of the three windows (the second only
  when \<^verbatim>\<open>proc_details >= 1\<close>). \<open>jiffies\<close> is the kernel's tick counter at the call.
\<close>

record (overloaded) ('l::len) progress_report =
  r_seq :: string
  r_warn :: "(drbd_repl_state \<times> 'l word \<times> 'l word \<times> 'l word) option"
  r_rs_left :: "'l word"
  r_res :: uint
  r_short :: "'l short_locals"
  r_very_short :: "'l speed_locals option"
  r_long :: "'l speed_locals"

definition drbd_syncer_progress ::
  "'l::len kconfig \<Rightarrow> 'l word \<Rightarrow> 'l drbd_device \<Rightarrow> fault + 'l progress_report" where
  "drbd_syncer_progress cfg jiffies device =
     bindf (drbd_get_syncer_progress device) (\<lambda>p.
     let rs_left = bits_left p; res = per_mil_done p in
     bindf (short_window cfg jiffies device rs_left) (\<lambda>sw.
     bindf (if proc_details cfg \<ge> 1
            then bindf (very_short_window cfg jiffies device rs_left) (\<lambda>w. Inr (Some w))
            else Inr None) (\<lambda>vw.
     bindf (long_window cfg jiffies device rs_left) (\<lambda>lw.
     bindf (if proc_details cfg \<ge> 1 then sector_pos cfg device else Inr []) (\<lambda>pos.
     Inr \<lparr>r_seq =
            progress_bar res @
            (if repl_state device = L_VERIFY_S \<or> repl_state device = L_VERIFY_T
             then ''verified:'' else ''sync'' @ [CHR 0x27] @ ''ed:'') @
            printf_3u (res div 10) @ ''.'' @ printf_u (res mod 10) @ ''% '' @
            (if rs_total device > push_bit (30 - BM_BLOCK_SHIFT cfg) 4
             then ''('' @ printf_u (Bit2KB cfg (drop_bit 10 rs_left)) @ ''/'' @
                  printf_u (Bit2KB cfg (drop_bit 10 (rs_total device))) @ '')M''
             else ''('' @ printf_u (Bit2KB cfg rs_left) @ ''/'' @
                  printf_u (Bit2KB cfg (rs_total device)) @ '')K'') @
            [CHR 0x0A, CHR 0x09] @
            ''finish: '' @ printf_u (s_rt sw div 3600) @ '':'' @
            printf_02u (s_rt sw mod 3600 div 60) @ '':'' @ printf_02u (s_rt sw mod 60) @
            '' speed: '' @ seq_printf_with_thousands_grouping (sint (s_dbdt sw)) @ '' ('' @
            (case vw of
               Some w \<Rightarrow> seq_printf_with_thousands_grouping (sint (w_dbdt w)) @ '' -- ''
             | None \<Rightarrow> []) @
            seq_printf_with_thousands_grouping (sint (w_dbdt lw)) @ '')'' @
            (if repl_state device = L_SYNC_TARGET \<or> repl_state device = L_VERIFY_S
             then '' want: '' @ seq_printf_with_thousands_grouping (c_sync_rate device)
             else []) @
            '' K/sec'' @ (if s_stalled sw then '' (stalled)'' else []) @ [CHR 0x0A] @
            pos,
          r_warn = drbd_warn p, r_rs_left = rs_left, r_res = res,
          r_short = sw, r_very_short = vw, r_long = lw\<rparr>)))))"

section \<open>Concrete configurations and devices\<close>

text \<open>
  A kernel with 250 ticks per second, 8 marks, a step of 3, bitmap blocks of 4 KiB
  (\<open>BM_BLOCK_SHIFT = 12\<close>, so 8 sectors per bit and \<open>Bit2KB\<close> a left shift by 2), once with a
  64-bit and once with a 32-bit \<^verbatim>\<open>unsigned long\<close>.
\<close>

definition cfg64 :: "64 kconfig" where
  "cfg64 = \<lparr>HZ = 250, DRBD_SYNC_MARKS = 8, DRBD_SYNC_MARK_STEP = 3, BM_BLOCK_SHIFT = 12,
            BM_SECT_PER_BIT = 8, Bit2KB = (\<lambda>bits. push_bit 2 bits), proc_details = 1\<rparr>"

definition cfg32 :: "32 kconfig" where
  "cfg32 = \<lparr>HZ = 250, DRBD_SYNC_MARKS = 8, DRBD_SYNC_MARK_STEP = 3, BM_BLOCK_SHIFT = 12,
            BM_SECT_PER_BIT = 8, Bit2KB = (\<lambda>bits. push_bit 2 bits), proc_details = 1\<rparr>"

text \<open>
  A resync target with 1000000 bits in total and 250000 left; the last mark is number 3,
  mark 5 was taken at tick 5500 with 300000 bits left and mark 2 at tick 9250 with 260000
  left.
\<close>

definition dev64 :: "64 drbd_device" where
  "dev64 = \<lparr>repl_state = L_SYNC_TARGET, rs_total = 1000000, rs_failed = 0, ov_left = 0,
            bm_total_weight = 250000, bm_bits = 2000000, bm_resync_fo = 750000,
            rs_last_mark = 3,
            rs_mark_time = [0, 0, 9250, 0, 0, 5500, 0, 0],
            rs_mark_left = [0, 0, 260000, 0, 0, 300000, 0, 0],
            rs_start = 0, rs_paused = 0, c_sync_rate = 10000\<rparr>"

text \<open>
  A resync target on the 32-bit kernel with \<open>2 ^ 28\<close> bits (1 TiB), all of them left, and
  every mark taken at tick 0 with all of them left.
\<close>

definition dev32 :: "32 drbd_device" where
  "dev32 = \<lparr>repl_state = L_SYNC_TARGET, rs_total = 268435456, rs_failed = 0, ov_left = 0,
            bm_total_weight = 268435456, bm_bits = 268435456, bm_resync_fo = 0,
            rs_last_mark = 3,
            rs_mark_time = [0, 0, 0, 0, 0, 0, 0, 0],
            rs_mark_left = [268435456, 268435456, 268435456, 268435456,
                            268435456, 268435456, 268435456, 268435456],
            rs_start = 0, rs_paused = 0, c_sync_rate = 10000\<rparr>"

text \<open>
  The conditions on the constants under which the \<^verbatim>\<open>int\<close> expressions of
  \<^verbatim>\<open>drbd_syncer_progress\<close> stay in range: \<open>HZ\<close> and \<open>DRBD_SYNC_MARKS\<close> are positive, and the
  product \<^verbatim>\<open>DRBD_SYNC_MARK_STEP * DRBD_SYNC_MARKS\<close> is a non-negative \<^verbatim>\<open>int\<close>.
\<close>

definition kconfig_ok :: "'l::len kconfig \<Rightarrow> bool" where
  "kconfig_ok cfg =
     (0 < HZ cfg \<and> HZ cfg \<le> INT_MAX \<and>
      0 < DRBD_SYNC_MARKS cfg \<and> DRBD_SYNC_MARKS cfg < 2 ^ 30 \<and>
      0 \<le> DRBD_SYNC_MARK_STEP cfg * DRBD_SYNC_MARKS cfg \<and>
      DRBD_SYNC_MARK_STEP cfg * DRBD_SYNC_MARKS cfg \<le> INT_MAX)"

text \<open>
  What the code that writes the marks maintains: the two arrays have
  \<^verbatim>\<open>DRBD_SYNC_MARKS\<close> entries and \<^verbatim>\<open>rs_last_mark\<close> is an index into them.
\<close>

definition marks_ok :: "'l::len kconfig \<Rightarrow> 'l drbd_device \<Rightarrow> bool" where
  "marks_ok cfg device =
     (0 \<le> rs_last_mark device \<and> rs_last_mark device < DRBD_SYNC_MARKS cfg \<and>
      int (length (rs_mark_time device)) = DRBD_SYNC_MARKS cfg \<and>
      int (length (rs_mark_left device)) = DRBD_SYNC_MARKS cfg)"

section \<open>Arithmetic of the per-mille computation\<close>

lemma pow32_le: "32 \<le> LENGTH('l::len) \<Longrightarrow> (2::nat) ^ 32 \<le> 2 ^ LENGTH('l)"
  by (rule power_increasing) simp_all

lemma unat_1000: "32 \<le> LENGTH('l::len) \<Longrightarrow> unat (1000 :: 'l word) = 1000"
  using pow32_le [where 'l='l] by (simp add: unat_numeral take_bit_nat_eq_self)

lemma unat_UINT_MAX: "32 \<le> LENGTH('l::len) \<Longrightarrow> unat (ucast UINT_MAX :: 'l word) = 4294967295"
  using pow32_le [where 'l='l] by (simp add: UINT_MAX_def unat_numeral take_bit_nat_eq_self)

lemma shifted_times_1000:
  fixes x :: nat
  assumes "10 \<le> s"
  shows "x div 2 ^ s * 1000 \<le> x"
proof -
  have "(2::nat) ^ 10 \<le> 2 ^ s" using assms by (rule power_increasing) simp
  then have "x div 2 ^ s \<le> x div 2 ^ 10" by (intro div_le_mono2) simp_all
  then have "x div 2 ^ s * 1000 \<le> x div 2 ^ 10 * 1000" by simp
  also have "\<dots> \<le> x" by simp
  finally show ?thesis .
qed

lemma unat_drop_bit_div:
  fixes w :: "'l::len word"
  shows "unat (drop_bit s w) = unat w div 2 ^ s"
proof -
  have "unat (drop_bit s w) = drop_bit s (unat w)" by (rule unat_drop_bit_eq)
  also have "\<dots> = unat w div 2 ^ s" by (rule drop_bit_eq_div)
  finally show ?thesis .
qed

lemma unat_left_1000:
  fixes bl :: "'l::len word"
  assumes "32 \<le> LENGTH('l)" "10 \<le> s"
  shows "unat (drop_bit s bl * 1000) = unat bl div 2 ^ s * 1000"
proof -
  have k: "unat (1000 :: 'l word) = 1000" by (rule unat_1000 [OF assms(1)])
  have d: "unat (drop_bit s bl) = unat bl div 2 ^ s" by (rule unat_drop_bit_div)
  have "unat bl div 2 ^ s * 1000 \<le> unat bl" using assms(2) by (rule shifted_times_1000)
  also have "\<dots> < 2 ^ LENGTH('l)" by simp
  finally have "unat (drop_bit s bl) * unat (1000 :: 'l word) < 2 ^ LENGTH('l)"
    unfolding k d .
  then have "unat (drop_bit s bl * 1000) = unat (drop_bit s bl) * unat (1000 :: 'l word)"
    by (rule unat_mult_lem [THEN iffD1])
  then show ?thesis unfolding k d .
qed

lemma half_succ_less:
  fixes x :: nat
  shows "x < n \<Longrightarrow> 2 \<le> n \<Longrightarrow> 1 \<le> s \<Longrightarrow> 1 + x div 2 ^ s < n"
proof -
  assume a: "x < n" "2 \<le> n" "1 \<le> s"
  have "(2::nat) ^ 1 \<le> 2 ^ s" using a(3) by (rule power_increasing) simp
  then have "x div 2 ^ s \<le> x div 2 ^ 1" by (intro div_le_mono2) simp_all
  then have "x div 2 ^ s \<le> x div 2" by simp
  with a show ?thesis by arith
qed

lemma unat_total:
  fixes t :: "'l::len word"
  assumes "1 \<le> s"
  shows "unat (1 + drop_bit s t) = 1 + unat t div 2 ^ s"
proof -
  have d: "unat (drop_bit s t) = unat t div 2 ^ s" by (rule unat_drop_bit_div)
  have "1 \<le> LENGTH('l)" by (simp add: Suc_le_eq)
  then have "(2::nat) ^ 1 \<le> 2 ^ LENGTH('l)" by (rule power_increasing) simp
  then have "1 + unat t div 2 ^ s < 2 ^ LENGTH('l)"
    using assms by (intro half_succ_less) simp_all
  then have "unat (1::'l word) + unat (drop_bit s t) < 2 ^ LENGTH('l)"
    unfolding d by simp
  then have "unat (1 + drop_bit s t) = unat (1::'l word) + unat (drop_bit s t)"
    by (rule unat_add_lem [THEN iffD1])
  then show ?thesis unfolding d by simp
qed

lemma quot_below_1000:
  fixes a b :: nat
  assumes "a \<le> b"
  shows "a * 1000 div (1 + b) \<le> 999"
proof -
  have "a * 1000 < 1000 * (1 + b)" using assms by simp
  then have "a * 1000 div (1 + b) < 1000" by (simp add: less_mult_imp_div_less mult.commute)
  then show ?thesis by simp
qed


text \<open>The subtraction, product and quotient of line 108 with every value reduced modulo \<open>2 ^ 32\<close>.\<close>

lemma wrapped_equals_exact:
  fixes L T :: nat
  assumes "L * 1000 < 2 ^ 32" and "T < 2 ^ 32" and "L * 1000 div T \<le> 999"
  shows "(1000 + 2 ^ 32 - (L mod 2 ^ 32 * 1000 mod 2 ^ 32) div (T mod 2 ^ 32)) mod 2 ^ 32 =
         1000 - L * 1000 div T"
proof -
  have "L \<le> L * 1000" by simp
  also note assms(1)
  finally have m1: "L mod 2 ^ 32 = L" by (rule mod_less)
  have m2: "L * 1000 mod 2 ^ 32 = L * 1000" using assms(1) by (rule mod_less)
  have m3: "T mod 2 ^ 32 = T" using assms(2) by (rule mod_less)
  define q where "q = L * 1000 div T"
  have q: "q \<le> 999" using assms(3) by (simp only: q_def)
  have "(1000 + 2 ^ 32 - q) mod 2 ^ 32 = 1000 - q"
  proof -
    have "1000 + 2 ^ 32 - q = (1000 - q) + 1 * 2 ^ 32" using q by simp
    also have "\<dots> mod 2 ^ 32 = (1000 - q) mod 2 ^ 32" by (rule mod_mult_self1)
    also have "\<dots> = 1000 - q" by (rule mod_less) simp
    finally show ?thesis .
  qed
  then show ?thesis unfolding m1 m2 m3 q_def .
qed

lemma bindf_simps [simp]:
  "bindf (Inl e) f = Inl e"
  "bindf (Inr x) f = f x"
  by (simp_all add: bindf_def)

lemma unat_ucast_small:
  fixes w :: "'l::len word"
  assumes "unat w < 2 ^ LENGTH('b::len)"
  shows "unat (ucast w :: 'b word) = unat w"
proof -
  have "unat (ucast w :: 'b word) = take_bit LENGTH('b) (unat w)" by (rule unsigned_ucast_eq)
  also have "\<dots> = unat w" using assms by (rule take_bit_nat_eq_self)
  finally show ?thesis .
qed

lemma total_nonzero:
  fixes t :: "'l::len word"
  assumes "1 \<le> s"
  shows "1 + drop_bit s t \<noteq> 0"
proof
  assume "1 + drop_bit s t = 0"
  then have "unat (1 + drop_bit s t) = 0" by simp
  then show False unfolding unat_total [OF assms] by simp
qed

lemma per_mil_calc_returns:
  "\<exists>l. per_mil_calc bl rs_tot = Inr l"
proof -
  have "1 + drop_bit (if rs_tot > ucast UINT_MAX then 16 else 10) rs_tot \<noteq> 0"
    by (rule total_nonzero) simp
  then show ?thesis by (simp add: per_mil_calc_def Let_def udiv_def)
qed

lemma per_mil_calc_exact:
  fixes bl rs_tot :: "'l::len word"
  assumes len: "32 \<le> LENGTH('l)" and le: "bl \<le> rs_tot"
  shows "\<exists>l. per_mil_calc bl rs_tot = Inr l \<and>
           pm_shift l = (if 4294967295 < unat rs_tot then 16 else 10) \<and>
           unat (pm_left l) = unat bl div 2 ^ pm_shift l \<and>
           unat (pm_total l) = 1 + unat rs_tot div 2 ^ pm_shift l \<and>
           unat (pm_left l * 1000) = unat (pm_left l) * 1000 \<and>
           unat (pm_left l * 1000 div pm_total l) = unat (pm_left l) * 1000 div unat (pm_total l) \<and>
           unat (pm_left l) * 1000 div unat (pm_total l) \<le> 999 \<and>
           unat (pm_tmp l) = 1000 - unat (pm_left l) * 1000 div unat (pm_total l)"
proof -
  define s :: nat where "s = (if rs_tot > ucast UINT_MAX then 16 else 10)"
  have s10: "10 \<le> s" and s1: "1 \<le> s" by (simp_all add: s_def)
  have s_eq: "s = (if 4294967295 < unat rs_tot then 16 else 10)"
    by (simp add: s_def word_less_nat_alt unat_UINT_MAX [OF len])
  define left where "left = drop_bit s bl"
  define total where "total = 1 + drop_bit s rs_tot"
  have L: "unat left = unat bl div 2 ^ s" unfolding left_def by (rule unat_drop_bit_div)
  have T: "unat total = 1 + unat rs_tot div 2 ^ s"
    unfolding total_def by (rule unat_total [OF s1])
  have P: "unat (left * 1000) = unat left * 1000"
    unfolding left_def L [unfolded left_def] by (rule unat_left_1000 [OF len s10])
  have "unat bl \<le> unat rs_tot" using le by (simp add: word_le_nat_alt)
  then have "unat bl div 2 ^ s \<le> unat rs_tot div 2 ^ s" by (rule div_le_mono)
  then have Q: "unat left * 1000 div unat total \<le> 999"
    unfolding L T by (rule quot_below_1000)
  have nz: "total \<noteq> 0" unfolding total_def by (rule total_nonzero [OF s1])
  have Qd: "unat (left * 1000 div total) = unat left * 1000 div unat total"
    by (simp only: unat_div P)
  have k: "unat (1000 :: 'l word) = 1000" by (rule unat_1000 [OF len])
  have "left * 1000 div total \<le> 1000"
    using Q by (simp only: word_le_nat_alt Qd k)
  then have "unat (1000 - left * 1000 div total) =
      unat (1000::'l word) - unat (left * 1000 div total)"
    by (rule unat_sub)
  then have D: "unat (1000 - left * 1000 div total) = 1000 - unat left * 1000 div unat total"
    by (simp only: Qd k)
  have "per_mil_calc bl rs_tot =
      Inr \<lparr>pm_shift = s, pm_left = left, pm_total = total,
           pm_tmp = 1000 - left * 1000 div total\<rparr>"
    using nz by (simp add: per_mil_calc_def Let_def udiv_def s_def left_def total_def)
  then show ?thesis using s_eq L T P Qd D Q by simp
qed

text \<open>The two branches of \<^verbatim>\<open>drbd_get_syncer_progress\<close>.\<close>

lemma gsp_warn_branch:
  fixes d :: "'l::len drbd_device"
  assumes "drbd_get_syncer_progress d = Inr p" and "rs_total d < bits_left p"
  shows "per_mil_done p = 0 \<and>
         drbd_warn p = Some (repl_state d, bits_left p, rs_total d, rs_failed d)"
  using assms
  by (auto simp add: drbd_get_syncer_progress_def Let_def bindf_def
      split: if_splits sum.splits)

lemma gsp_returns:
  fixes d :: "'l::len drbd_device"
  shows "\<exists>p. drbd_get_syncer_progress d = Inr p \<and>
          bits_left p = (if repl_state d = L_VERIFY_S \<or> repl_state d = L_VERIFY_T
                         then ov_left d else bm_total_weight d - rs_failed d) \<and>
          (drbd_warn p \<noteq> None) = (rs_total d < bits_left p)"
proof -
  define bl where "bl = (if repl_state d = L_VERIFY_S \<or> repl_state d = L_VERIFY_T
                         then ov_left d else bm_total_weight d - rs_failed d)"
  obtain l where "per_mil_calc bl (rs_total d) = Inr l"
    using per_mil_calc_returns by blast
  then show ?thesis
    by (simp add: drbd_get_syncer_progress_def Let_def bl_def)
qed

lemma gsp_else_branch:
  fixes d :: "'l::len drbd_device"
  assumes len: "32 \<le> LENGTH('l)"
    and run: "drbd_get_syncer_progress d = Inr p" and le: "bits_left p \<le> rs_total d"
  shows "\<exists>l. per_mil_calc (bits_left p) (rs_total d) = Inr l \<and>
           per_mil_done p = ucast (pm_tmp l) \<and>
           unat (per_mil_done p) = unat (pm_tmp l) \<and> drbd_warn p = None"
proof -
  obtain l where l: "per_mil_calc (bits_left p) (rs_total d) = Inr l"
    and t: "unat (pm_tmp l) = 1000 - unat (pm_left l) * 1000 div unat (pm_total l)"
    using per_mil_calc_exact [OF len le] by blast
  have "unat (pm_tmp l) < 2 ^ LENGTH(32)" unfolding t by simp
  then have u: "unat (ucast (pm_tmp l) :: uint) = unat (pm_tmp l)" by (rule unat_ucast_small)
  have "per_mil_done p = ucast (pm_tmp l) \<and> drbd_warn p = None"
    using run le l
    by (auto simp add: drbd_get_syncer_progress_def Let_def bindf_def
        split: if_splits sum.splits)
  with l u show ?thesis by simp
qed

section \<open>Conversions, guards and the windows\<close>

lemma unat_word_of_int:
  assumes "0 \<le> k" and "k < 2 ^ LENGTH('l::len)"
  shows "unat (word_of_int k :: 'l word) = nat k"
proof -
  have "uint (word_of_int k :: 'l word) = k mod 2 ^ LENGTH('l)" by (rule uint_word_of_int)
  also have "\<dots> = k" using assms by simp
  finally show ?thesis by (simp add: unat_eq_nat_uint)
qed

lemma int_fits_long:
  assumes "32 \<le> LENGTH('l::len)" and "k \<le> INT_MAX"
  shows "k < 2 ^ LENGTH('l)"
proof -
  have "(2::int) ^ 32 \<le> 2 ^ LENGTH('l)" using assms(1) by (rule power_increasing) simp
  then show ?thesis using assms(2) by (simp add: INT_MAX_def)
qed

lemma HZ_to_long:
  fixes cfg :: "'l::len kconfig"
  assumes len: "32 \<le> LENGTH('l)" and ok: "kconfig_ok cfg"
  shows "unat (word_of_int (HZ cfg) :: 'l word) = nat (HZ cfg)"
    and "word_of_int (HZ cfg) \<noteq> (0 :: 'l word)"
proof -
  have h: "0 \<le> HZ cfg" "0 < HZ cfg" "HZ cfg \<le> INT_MAX" using ok by (simp_all add: kconfig_ok_def)
  show u: "unat (word_of_int (HZ cfg) :: 'l word) = nat (HZ cfg)"
    using h(1) int_fits_long [OF len h(3)] by (rule unat_word_of_int)
  show "word_of_int (HZ cfg) \<noteq> (0 :: 'l word)"
  proof
    assume "word_of_int (HZ cfg) = (0 :: 'l word)"
    then have "unat (word_of_int (HZ cfg) :: 'l word) = 0" by simp
    then show False using u h(2) by simp
  qed
qed

lemma unat_100: "32 \<le> LENGTH('l::len) \<Longrightarrow> unat (100 :: 'l word) = 100"
  using pow32_le [where 'l='l] by (simp add: unat_numeral take_bit_nat_eq_self)

lemma div_100_succ_less:
  fixes x n :: nat
  shows "x < n \<Longrightarrow> 2 \<le> n \<Longrightarrow> x div 100 + 1 < n"
  by arith

lemma unat_div_100_succ:
  fixes w :: "'l::len word"
  assumes len: "32 \<le> LENGTH('l)"
  shows "unat (w div 100 + 1) = unat w div 100 + 1"
proof -
  have d: "unat (w div 100) = unat w div 100"
    by (simp only: unat_div unat_100 [OF len])
  have "unat w div 100 + 1 < 2 ^ LENGTH('l)"
  proof (rule div_100_succ_less)
    show "unat w < 2 ^ LENGTH('l)" by simp
    have "(2::nat) \<le> 2 ^ 32" by simp
    also have "\<dots> \<le> 2 ^ LENGTH('l)" by (rule pow32_le [OF len])
    finally show "(2::nat) \<le> 2 ^ LENGTH('l)" .
  qed
  then have "unat (w div 100) + unat (1 :: 'l word) < 2 ^ LENGTH('l)"
    unfolding d by simp
  then have "unat (w div 100 + 1) = unat (w div 100) + unat (1 :: 'l word)"
    by (rule unat_add_lem [THEN iffD1])
  then show ?thesis unfolding d by simp
qed

lemma div_100_succ_nonzero:
  fixes w :: "'l::len word"
  assumes len: "32 \<le> LENGTH('l)"
  shows "w div 100 + 1 \<noteq> 0"
proof
  assume "w div 100 + 1 = 0"
  then have "unat (w div 100 + 1) = 0" by simp
  then show False unfolding unat_div_100_succ [OF len] by simp
qed

lemma rt_calc_result:
  fixes dt rs_left db :: "'l::len word"
  assumes len: "32 \<le> LENGTH('l)"
  shows "rt_calc dt rs_left db = Inr (dt * (rs_left div (db div 100 + 1)) div 100)"
    and "unat (dt * (rs_left div (db div 100 + 1)) div 100) =
           unat dt * (unat rs_left div (unat db div 100 + 1)) mod 2 ^ LENGTH('l) div 100"
proof -
  show "rt_calc dt rs_left db = Inr (dt * (rs_left div (db div 100 + 1)) div 100)"
    using div_100_succ_nonzero [OF len, of db] by (simp add: rt_calc_def udiv_def)
  have "unat (dt * (rs_left div (db div 100 + 1)) div 100) =
        unat (dt * (rs_left div (db div 100 + 1))) div 100"
    by (simp only: unat_div unat_100 [OF len])
  also have "unat (dt * (rs_left div (db div 100 + 1))) =
        unat dt * unat (rs_left div (db div 100 + 1)) mod 2 ^ LENGTH('l)"
    by (rule unat_word_ariths)
  also have "unat (rs_left div (db div 100 + 1)) = unat rs_left div (unat db div 100 + 1)"
    by (simp only: unat_div unat_div_100_succ [OF len])
  finally show "unat (dt * (rs_left div (db div 100 + 1)) div 100) =
           unat dt * (unat rs_left div (unat db div 100 + 1)) mod 2 ^ LENGTH('l) div 100" .
qed

text \<open>
  Line 179 in exact arithmetic: both divisions are floor divisions, the product is taken
  modulo \<open>2 ^ LENGTH('l)\<close>, and the result is the two-stage expression whenever the
  product is below \<open>2 ^ LENGTH('l)\<close>.
\<close>

lemma rt_calc_modulo:
  fixes dt rs_left db :: "'l::len word"
  assumes len: "32 \<le> LENGTH('l)"
  shows "\<exists>rt. rt_calc dt rs_left db = Inr rt \<and>
           rt = dt * (rs_left div (db div 100 + 1)) div 100 \<and>
           unat rt =
             unat dt * (unat rs_left div (unat db div 100 + 1)) mod 2 ^ LENGTH('l) div 100 \<and>
           (unat dt * (unat rs_left div (unat db div 100 + 1)) < 2 ^ LENGTH('l) \<longrightarrow>
              unat rt = unat dt * (unat rs_left div (unat db div 100 + 1)) div 100)"
  using rt_calc_result [OF len, of dt rs_left db] by simp

lemma window_rate_result: "dt \<noteq> 0 \<Longrightarrow> window_rate db dt = Inr (db div dt)"
  by (simp add: window_rate_def udiv_def)

lemma sector_pos_returns:
  fixes cfg :: "'l::len kconfig"
  assumes len: "32 \<le> LENGTH('l)"
  shows "\<exists>s. sector_pos cfg d = Inr s"
  using div_100_succ_nonzero [OF len, of "bm_bits d"]
  by (simp add: sector_pos_def Let_def udiv_def)

lemma long_window_result:
  fixes cfg :: "'l::len kconfig"
  assumes len: "32 \<le> LENGTH('l)" and ok: "kconfig_ok cfg"
  shows "\<exists>w. long_window cfg j d rs_left = Inr w \<and> w_dt w \<noteq> 0 \<and>
           w_dt w = (if (j - rs_start d - rs_paused d) div word_of_int (HZ cfg) = 0 then 1
                     else (j - rs_start d - rs_paused d) div word_of_int (HZ cfg)) \<and>
           w_db w = rs_total d - rs_left \<and>
           w_dbdt w = Bit2KB cfg (w_db w div w_dt w)"
  using HZ_to_long(2) [OF len ok]
  by (simp add: long_window_def Let_def udiv_def window_rate_def)

lemma unat_sub_wraps:
  fixes a b :: "'l::len word"
  assumes "a < b"
  shows "unat (a - b) = 2 ^ LENGTH('l) - (unat b - unat a)" and "a - b \<noteq> 0"
proof -
  have lt: "unat a < unat b" using assms by (simp add: word_less_nat_alt)
  have "unat (a - b) = unat a + 2 ^ LENGTH('l) - unat b"
    using lt by (simp add: unat_sub_if')
  also have "\<dots> = 2 ^ LENGTH('l) - (unat b - unat a)"
    using lt unsigned_less [of b, where 'a=nat] by simp
  finally show "unat (a - b) = 2 ^ LENGTH('l) - (unat b - unat a)" .
  show "a - b \<noteq> 0" using assms by auto
qed

text \<open>No step of the report divides by zero; other faults are left to the lemmas below.\<close>

lemma bindf_Inl_iff:
  "(bindf m f = Inl e) = (m = Inl e \<or> (\<exists>x. m = Inr x \<and> f x = Inl e))"
  by (cases m) simp_all

lemma int_add_no_div0 [simp]: "int_add a b \<noteq> Inl DivideByZero"
  by (simp add: int_add_def)

lemma int_sub_no_div0 [simp]: "int_sub a b \<noteq> Inl DivideByZero"
  by (simp add: int_sub_def)

lemma array_read_no_div0 [simp]: "array_read a i \<noteq> Inl DivideByZero"
  by (simp add: array_read_def)

lemma int_rem_no_div0: "b \<noteq> 0 \<Longrightarrow> int_rem a b \<noteq> Inl DivideByZero"
  by (simp add: int_rem_def)

lemma udiv_no_div0: "b \<noteq> 0 \<Longrightarrow> udiv a b \<noteq> Inl DivideByZero"
  by (simp add: udiv_def)

lemma rt_calc_no_div0:
  fixes dt :: "'l::len word"
  shows "32 \<le> LENGTH('l) \<Longrightarrow> rt_calc dt rs_left db \<noteq> Inl DivideByZero"
  by (simp add: rt_calc_result(1))

lemma window_rate_no_div0: "dt \<noteq> 0 \<Longrightarrow> window_rate db dt \<noteq> Inl DivideByZero"
  by (simp add: window_rate_result)

lemma short_window_no_div0:
  fixes cfg :: "'l::len kconfig"
  assumes len: "32 \<le> LENGTH('l)" and ok: "kconfig_ok cfg"
  shows "short_window cfg j d rs_left \<noteq> Inl DivideByZero"
proof -
  have m: "DRBD_SYNC_MARKS cfg \<noteq> 0" using ok by (simp add: kconfig_ok_def)
  show ?thesis
    unfolding short_window_def Let_def
    by (simp add: bindf_Inl_iff int_rem_no_div0 [OF m] udiv_no_div0 [OF HZ_to_long(2) [OF len ok]]
        rt_calc_no_div0 [OF len] window_rate_no_div0)
qed

lemma very_short_window_no_div0:
  fixes cfg :: "'l::len kconfig"
  assumes len: "32 \<le> LENGTH('l)" and ok: "kconfig_ok cfg"
  shows "very_short_window cfg j d rs_left \<noteq> Inl DivideByZero"
proof -
  have m: "DRBD_SYNC_MARKS cfg \<noteq> 0" using ok by (simp add: kconfig_ok_def)
  show ?thesis
    unfolding very_short_window_def Let_def
    by (simp add: bindf_Inl_iff int_rem_no_div0 [OF m] udiv_no_div0 [OF HZ_to_long(2) [OF len ok]]
        window_rate_no_div0)
qed

lemma drbd_syncer_progress_no_div0:
  fixes cfg :: "'l::len kconfig"
  assumes len: "32 \<le> LENGTH('l)" and ok: "kconfig_ok cfg"
  shows "drbd_syncer_progress cfg j d \<noteq> Inl DivideByZero"
proof -
  obtain p where p: "drbd_get_syncer_progress d = Inr p" using gsp_returns [of d] by blast
  obtain w where w: "long_window cfg j d (bits_left p) = Inr w"
    using long_window_result [OF len ok] by blast
  obtain s where s: "sector_pos cfg d = Inr s" using sector_pos_returns [OF len] by blast
  show ?thesis
    unfolding drbd_syncer_progress_def Let_def
    by (simp add: bindf_Inl_iff p w s short_window_no_div0 [OF len ok]
        very_short_window_no_div0 [OF len ok])
qed

text \<open>
  With the marks in order, each window returns, and its result holds the values that the
  source assigns.
\<close>

lemma short_window_result:
  fixes cfg :: "'l::len kconfig"
  assumes len: "32 \<le> LENGTH('l)" and ok: "kconfig_ok cfg" and mk: "marks_ok cfg d"
  shows "\<exists>sw. short_window cfg j d rs_left = Inr sw \<and>
           s_stalled sw =
             (word_of_int (DRBD_SYNC_MARK_STEP cfg * DRBD_SYNC_MARKS cfg) <
              (j - rs_mark_time d ! nat ((rs_last_mark d + 2) mod DRBD_SYNC_MARKS cfg)) div
                word_of_int (HZ cfg)) \<and>
           s_dt sw =
             (if (j - rs_mark_time d ! nat ((rs_last_mark d + 2) mod DRBD_SYNC_MARKS cfg)) div
                   word_of_int (HZ cfg) = 0 then 1
              else (j - rs_mark_time d ! nat ((rs_last_mark d + 2) mod DRBD_SYNC_MARKS cfg)) div
                     word_of_int (HZ cfg)) \<and>
           s_dt sw \<noteq> 0 \<and>
           s_db sw =
             rs_mark_left d ! nat ((rs_last_mark d + 2) mod DRBD_SYNC_MARKS cfg) - rs_left \<and>
           s_rt sw = s_dt sw * (rs_left div (s_db sw div 100 + 1)) div 100 \<and>
           s_dbdt sw = Bit2KB cfg (s_db sw div s_dt sw)"
proof -
  have a: "int_add (rs_last_mark d) 2 = Inr (rs_last_mark d + 2)"
    using ok mk by (simp add: int_add_def kconfig_ok_def marks_ok_def INT_MAX_def)
  have hz: "word_of_int (HZ cfg) \<noteq> (0 :: 'l word)" by (rule HZ_to_long(2) [OF len ok])
  have m: "0 < DRBD_SYNC_MARKS cfg" using ok by (simp add: kconfig_ok_def)
  have r: "0 \<le> rs_last_mark d + 2" using mk by (simp add: marks_ok_def)
  have lens: "int (length (rs_mark_time d)) = DRBD_SYNC_MARKS cfg"
    "int (length (rs_mark_left d)) = DRBD_SYNC_MARKS cfg"
    using mk by (simp_all add: marks_ok_def)
  have b: "int_rem (rs_last_mark d + 2) (DRBD_SYNC_MARKS cfg) =
           Inr ((rs_last_mark d + 2) mod DRBD_SYNC_MARKS cfg)"
    using m r by (simp add: int_rem_def smod_mod_positive)
  have i: "0 \<le> (rs_last_mark d + 2) mod DRBD_SYNC_MARKS cfg"
    "(rs_last_mark d + 2) mod DRBD_SYNC_MARKS cfg < DRBD_SYNC_MARKS cfg"
    using m by simp_all
  have c: "array_read (rs_mark_time d) ((rs_last_mark d + 2) mod DRBD_SYNC_MARKS cfg) =
           Inr (rs_mark_time d ! nat ((rs_last_mark d + 2) mod DRBD_SYNC_MARKS cfg))"
    using i lens(1) by (simp add: array_read_def)
  have c': "array_read (rs_mark_left d) ((rs_last_mark d + 2) mod DRBD_SYNC_MARKS cfg) =
           Inr (rs_mark_left d ! nat ((rs_last_mark d + 2) mod DRBD_SYNC_MARKS cfg))"
    using i lens(2) by (simp add: array_read_def)
  show ?thesis
    unfolding short_window_def
    by (simp add: a b c c' udiv_def hz Let_def rt_calc_result(1) [OF len] window_rate_result)
qed

lemma very_short_window_result:
  fixes cfg :: "'l::len kconfig"
  assumes len: "32 \<le> LENGTH('l)" and ok: "kconfig_ok cfg" and mk: "marks_ok cfg d"
  shows "\<exists>w. very_short_window cfg j d rs_left = Inr w \<and>
           w_dt w =
             (if (j - rs_mark_time d !
                       nat ((rs_last_mark d + DRBD_SYNC_MARKS cfg - 1) mod DRBD_SYNC_MARKS cfg)) div
                   word_of_int (HZ cfg) = 0 then 1
              else (j - rs_mark_time d !
                       nat ((rs_last_mark d + DRBD_SYNC_MARKS cfg - 1) mod DRBD_SYNC_MARKS cfg)) div
                     word_of_int (HZ cfg)) \<and>
           w_dt w \<noteq> 0 \<and>
           w_db w =
             rs_mark_left d !
               nat ((rs_last_mark d + DRBD_SYNC_MARKS cfg - 1) mod DRBD_SYNC_MARKS cfg) - rs_left \<and>
           w_dbdt w = Bit2KB cfg (w_db w div w_dt w)"
proof -
  have m: "0 < DRBD_SYNC_MARKS cfg" "DRBD_SYNC_MARKS cfg < 2 ^ 30"
    using ok by (simp_all add: kconfig_ok_def)
  have rl: "0 \<le> rs_last_mark d" "rs_last_mark d < DRBD_SYNC_MARKS cfg"
    using mk by (simp_all add: marks_ok_def)
  have a: "int_add (rs_last_mark d) (DRBD_SYNC_MARKS cfg) =
           Inr (rs_last_mark d + DRBD_SYNC_MARKS cfg)"
    using m rl by (simp add: int_add_def INT_MAX_def)
  have a': "int_sub (rs_last_mark d + DRBD_SYNC_MARKS cfg) 1 =
           Inr (rs_last_mark d + DRBD_SYNC_MARKS cfg - 1)"
    using m rl by (simp add: int_sub_def INT_MAX_def)
  have hz: "word_of_int (HZ cfg) \<noteq> (0 :: 'l word)" by (rule HZ_to_long(2) [OF len ok])
  have r: "0 \<le> rs_last_mark d + DRBD_SYNC_MARKS cfg - 1" using m rl by simp
  have lens: "int (length (rs_mark_time d)) = DRBD_SYNC_MARKS cfg"
    "int (length (rs_mark_left d)) = DRBD_SYNC_MARKS cfg"
    using mk by (simp_all add: marks_ok_def)
  have b: "int_rem (rs_last_mark d + DRBD_SYNC_MARKS cfg - 1) (DRBD_SYNC_MARKS cfg) =
           Inr ((rs_last_mark d + DRBD_SYNC_MARKS cfg - 1) mod DRBD_SYNC_MARKS cfg)"
    using m r by (simp add: int_rem_def smod_mod_positive)
  have i: "0 \<le> (rs_last_mark d + DRBD_SYNC_MARKS cfg - 1) mod DRBD_SYNC_MARKS cfg"
    "(rs_last_mark d + DRBD_SYNC_MARKS cfg - 1) mod DRBD_SYNC_MARKS cfg < DRBD_SYNC_MARKS cfg"
    using m by simp_all
  have c: "array_read (rs_mark_time d)
             ((rs_last_mark d + DRBD_SYNC_MARKS cfg - 1) mod DRBD_SYNC_MARKS cfg) =
           Inr (rs_mark_time d !
                  nat ((rs_last_mark d + DRBD_SYNC_MARKS cfg - 1) mod DRBD_SYNC_MARKS cfg))"
    using i lens(1) by (simp add: array_read_def)
  have c': "array_read (rs_mark_left d)
             ((rs_last_mark d + DRBD_SYNC_MARKS cfg - 1) mod DRBD_SYNC_MARKS cfg) =
           Inr (rs_mark_left d !
                  nat ((rs_last_mark d + DRBD_SYNC_MARKS cfg - 1) mod DRBD_SYNC_MARKS cfg))"
    using i lens(2) by (simp add: array_read_def)
  show ?thesis
    unfolding very_short_window_def
    by (simp add: a a' b c c' udiv_def hz Let_def window_rate_result)
qed

lemma drbd_syncer_progress_result:
  fixes cfg :: "'l::len kconfig"
  assumes len: "32 \<le> LENGTH('l)" and ok: "kconfig_ok cfg" and mk: "marks_ok cfg d"
  shows "\<exists>r p. drbd_syncer_progress cfg j d = Inr r \<and>
           drbd_get_syncer_progress d = Inr p \<and>
           r_rs_left r = bits_left p \<and> r_res r = per_mil_done p \<and> r_warn r = drbd_warn p \<and>
           short_window cfg j d (bits_left p) = Inr (r_short r) \<and>
           long_window cfg j d (bits_left p) = Inr (r_long r) \<and>
           (if proc_details cfg \<ge> 1
            then \<exists>w. very_short_window cfg j d (bits_left p) = Inr w \<and> r_very_short r = Some w
            else r_very_short r = None) \<and>
           take (length (progress_bar (r_res r))) (r_seq r) = progress_bar (r_res r)"
proof -
  obtain p where p: "drbd_get_syncer_progress d = Inr p" using gsp_returns [of d] by blast
  obtain sw where sw: "short_window cfg j d (bits_left p) = Inr sw"
    using short_window_result [OF len ok mk] by blast
  obtain vw where vw: "very_short_window cfg j d (bits_left p) = Inr vw"
    using very_short_window_result [OF len ok mk] by blast
  obtain lw where lw: "long_window cfg j d (bits_left p) = Inr lw"
    using long_window_result [OF len ok] by blast
  obtain s where s: "sector_pos cfg d = Inr s" using sector_pos_returns [OF len] by blast
  show ?thesis
    unfolding drbd_syncer_progress_def Let_def
    by (simp add: p sw vw lw s)
qed

section \<open>The bar\<close>

lemma seq_loop_replicate: "seq_loop i n [c] = replicate (nat (n - i)) c"
proof (induction i n "[c]" rule: seq_loop.induct)
  case (1 i n)
  show ?case
  proof (cases "i < n")
    case True
    then have "nat (n - i) = Suc (nat (n - (i + 1)))" by simp
    with True 1 show ?thesis by (simp add: seq_loop.simps [of i n])
  next
    case False
    then show ?thesis by (simp add: seq_loop.simps [of i n])
  qed
qed

lemma bar_cells_eq:
  "bar_cells res =
     replicate (nat (uint (res div 50) - 1)) (CHR ''='') @ ''>'' @
     replicate (nat (20 - uint (res div 50))) (CHR ''.'')"
  by (simp add: bar_cells_def Let_def seq_loop_replicate)

lemma uint_res_div_50: "uint (res div 50 :: uint) = uint res div 50"
  by (simp add: uint_div)

lemma bar_cells_from_50:
  assumes "50 \<le> unat res" and "unat res \<le> 1000"
  shows "length (bar_cells res) = 20"
    and "bar_cells res =
           replicate (unat res div 50 - 1) (CHR ''='') @ ''>'' @
           replicate (20 - unat res div 50) (CHR ''.'')"
proof -
  have u: "uint res = int (unat res)" by simp
  have x: "uint (res div 50) = int (unat res div 50)"
    unfolding uint_res_div_50 u by (simp add: zdiv_int)
  have lo: "1 \<le> unat res div 50" using assms(1) by simp
  have hi: "unat res div 50 \<le> 20" using assms(2) by simp
  have n1: "nat (int (unat res div 50) - 1) = unat res div 50 - 1" by simp
  have n2: "nat (20 - int (unat res div 50)) = 20 - unat res div 50" by simp
  show "bar_cells res =
           replicate (unat res div 50 - 1) (CHR ''='') @ ''>'' @
           replicate (20 - unat res div 50) (CHR ''.'')"
    unfolding bar_cells_eq x n1 n2 ..
  then show "length (bar_cells res) = 20" using lo hi by simp
qed

lemma bar_cells_below_50:
  assumes "unat res < 50"
  shows "bar_cells res = ''>'' @ replicate 20 (CHR ''.'')"
proof -
  have u: "uint res = int (unat res)" by simp
  have "uint (res div 50) = int (unat res div 50)"
    unfolding uint_res_div_50 u by (simp add: zdiv_int)
  also have "unat res div 50 = 0" using assms by simp
  finally have x: "uint (res div 50) = 0" by simp
  show ?thesis unfolding bar_cells_eq x by (simp add: eval_nat_numeral)
qed

section \<open>The concrete configurations and devices are in order\<close>

lemma cfg64_ok: "kconfig_ok cfg64"
  by (simp add: kconfig_ok_def cfg64_def INT_MAX_def)

lemma dev64_marks_ok: "marks_ok cfg64 (dev64\<lparr>bm_total_weight := w\<rparr>)"
  by (simp add: marks_ok_def cfg64_def dev64_def)

section \<open>Properties of \<^verbatim>\<open>drbd_get_syncer_progress\<close>\<close>

text \<open>
  Claim C1, as amended. On every device, with an \<^verbatim>\<open>unsigned long\<close> of at least 32 bits,
  \<^verbatim>\<open>drbd_get_syncer_progress\<close> returns, and when the remaining bits do not exceed the total
  the per-mille value is at most 1000, it is 1000 when nothing remains, and when everything
  remains (remaining = total) it is \<open>1000 - t * 1000 div (1 + t)\<close> for the shifted total
  \<open>t\<close>, which is never 0. The precondition \<open>total > 0\<close> is not needed.
\<close>

theorem per_mil_done_range:
  fixes d :: "'l::len drbd_device"
  assumes len: "32 \<le> LENGTH('l)"
  shows "\<exists>p. drbd_get_syncer_progress d = Inr p \<and>
           (bits_left p \<le> rs_total d \<longrightarrow>
              unat (per_mil_done p) \<le> 1000 \<and>
              (bits_left p = 0 \<longrightarrow> per_mil_done p = 1000) \<and>
              (bits_left p = rs_total d \<longrightarrow>
                 per_mil_done p \<noteq> 0 \<and>
                 (let t = unat (rs_total d) div
                            2 ^ (if 4294967295 < unat (rs_total d) then 16 else 10)
                  in unat (per_mil_done p) = 1000 - t * 1000 div (1 + t))))"
proof -
  obtain p where run: "drbd_get_syncer_progress d = Inr p"
    using gsp_returns [of d] by blast
  have "unat (per_mil_done p) \<le> 1000 \<and>
        (bits_left p = 0 \<longrightarrow> per_mil_done p = 1000) \<and>
        (bits_left p = rs_total d \<longrightarrow>
           per_mil_done p \<noteq> 0 \<and>
           (let t = unat (rs_total d) div
                      2 ^ (if 4294967295 < unat (rs_total d) then 16 else 10)
            in unat (per_mil_done p) = 1000 - t * 1000 div (1 + t)))"
    if le: "bits_left p \<le> rs_total d"
  proof -
    obtain l where l: "per_mil_calc (bits_left p) (rs_total d) = Inr l"
      and u: "unat (per_mil_done p) = unat (pm_tmp l)"
      using gsp_else_branch [OF len run le] by blast
    obtain l' where l': "per_mil_calc (bits_left p) (rs_total d) = Inr l'"
      and sh: "pm_shift l' = (if 4294967295 < unat (rs_total d) then 16 else 10)"
      and L: "unat (pm_left l') = unat (bits_left p) div 2 ^ pm_shift l'"
      and T: "unat (pm_total l') = 1 + unat (rs_total d) div 2 ^ pm_shift l'"
      and Q: "unat (pm_left l') * 1000 div unat (pm_total l') \<le> 999"
      and D: "unat (pm_tmp l') = 1000 - unat (pm_left l') * 1000 div unat (pm_total l')"
      using per_mil_calc_exact [OF len le] by blast
    have ll: "l' = l" using l l' by simp
    have v: "unat (per_mil_done p) = 1000 - unat (pm_left l) * 1000 div unat (pm_total l)"
      using u D ll by simp
    have a: "unat (per_mil_done p) \<le> 1000" using v by simp
    have b: "per_mil_done p = 1000" if "bits_left p = 0"
    proof -
      have "unat (per_mil_done p) = 1000" using v L ll that by simp
      then have "unat (per_mil_done p) = unat (1000 :: uint)" by simp
      then show ?thesis by (simp only: word_unat_eq_iff)
    qed
    have c: "per_mil_done p \<noteq> 0"
    proof
      assume "per_mil_done p = 0"
      then have "unat (per_mil_done p) = 0" by simp
      then show False using v Q ll by simp
    qed
    have e: "let t = unat (rs_total d) div
                       2 ^ (if 4294967295 < unat (rs_total d) then 16 else 10)
             in unat (per_mil_done p) = 1000 - t * 1000 div (1 + t)"
      if "bits_left p = rs_total d"
      using v L T sh ll that by (simp add: Let_def)
    from a b c e show ?thesis by blast
  qed
  with run show ?thesis by blast
qed

text \<open>
  Claim C1 as the specification states it asks for the value 0 when remaining = total. With
  1024 bits in total and 1024 bits left the shift is 10, \<^verbatim>\<open>left\<close> is 1, \<^verbatim>\<open>total\<close> is 2 and the
  function stores \<open>1000 - 1000 div 2 = 500\<close>.
\<close>

theorem per_mil_done_at_total_counterexample:
  "drbd_get_syncer_progress (dev64\<lparr>rs_total := 1024, bm_total_weight := 1024\<rparr>) =
     Inr \<lparr>bits_left = 1024, per_mil_done = 500, drbd_warn = None\<rparr>"
  by (simp add: drbd_get_syncer_progress_def per_mil_calc_def dev64_def UINT_MAX_def
      udiv_def Let_def)

text \<open>
  Claim C1, witness: the amended statement at the 64-bit device with nothing left and at the
  one with all of its 1000000 bits left (\<open>t = 976\<close>, per-mille value 2).
\<close>

theorem per_mil_done_range_witness:
  "32 \<le> LENGTH(64) \<and>
   (\<exists>p. drbd_get_syncer_progress (dev64\<lparr>bm_total_weight := 0\<rparr>) = Inr p \<and>
        bits_left p \<le> rs_total (dev64\<lparr>bm_total_weight := 0\<rparr>) \<and> bits_left p = 0 \<and>
        per_mil_done p = 1000) \<and>
   (\<exists>p. drbd_get_syncer_progress (dev64\<lparr>bm_total_weight := 1000000\<rparr>) = Inr p \<and>
        bits_left p = rs_total (dev64\<lparr>bm_total_weight := 1000000\<rparr>) \<and>
        per_mil_done p \<noteq> 0 \<and> unat (per_mil_done p) = 2)"
proof -
  have len: "32 \<le> LENGTH(64)" by simp
  have e0: "drbd_get_syncer_progress (dev64\<lparr>bm_total_weight := 0\<rparr>) =
      Inr \<lparr>bits_left = 0, per_mil_done = 1000, drbd_warn = None\<rparr>"
    by (simp add: drbd_get_syncer_progress_def per_mil_calc_def dev64_def UINT_MAX_def
        udiv_def Let_def)
  have e1: "drbd_get_syncer_progress (dev64\<lparr>bm_total_weight := 1000000\<rparr>) =
      Inr \<lparr>bits_left = 1000000, per_mil_done = 2, drbd_warn = None\<rparr>"
    by (simp add: drbd_get_syncer_progress_def per_mil_calc_def dev64_def UINT_MAX_def
        udiv_def Let_def)
  have t: "rs_total (dev64\<lparr>bm_total_weight := 0\<rparr>) = 1000000"
      "rs_total (dev64\<lparr>bm_total_weight := 1000000\<rparr>) = 1000000"
    by (simp_all add: dev64_def)
  show ?thesis
    using len per_mil_done_range [OF len, of "dev64\<lparr>bm_total_weight := 0\<rparr>"]
      per_mil_done_range [OF len, of "dev64\<lparr>bm_total_weight := 1000000\<rparr>"]
    by (simp add: e0 e1 t)
qed

text \<open>
  Claim C2. \<^verbatim>\<open>drbd_get_syncer_progress\<close> returns on every device; \<^verbatim>\<open>*bits_left\<close> is
  \<^verbatim>\<open>ov_left\<close> for the two verify states and otherwise the bitmap weight minus \<^verbatim>\<open>rs_failed\<close>;
  the \<^verbatim>\<open>drbd_warn\<close> call is made exactly when \<^verbatim>\<open>*bits_left > rs_total\<close>, and then
  \<^verbatim>\<open>*per_mil_done\<close> is 0.
\<close>

theorem remaining_exceeds_total:
  fixes d :: "'l::len drbd_device"
  shows "\<exists>p. drbd_get_syncer_progress d = Inr p \<and>
           bits_left p = (if repl_state d = L_VERIFY_S \<or> repl_state d = L_VERIFY_T
                          then ov_left d else bm_total_weight d - rs_failed d) \<and>
           (drbd_warn p \<noteq> None) = (rs_total d < bits_left p) \<and>
           (rs_total d < bits_left p \<longrightarrow>
              per_mil_done p = 0 \<and>
              drbd_warn p = Some (repl_state d, bits_left p, rs_total d, rs_failed d))"
proof -
  obtain p where run: "drbd_get_syncer_progress d = Inr p"
    and bl: "bits_left p = (if repl_state d = L_VERIFY_S \<or> repl_state d = L_VERIFY_T
                          then ov_left d else bm_total_weight d - rs_failed d)"
    and w: "(drbd_warn p \<noteq> None) = (rs_total d < bits_left p)"
    using gsp_returns [of d] by blast
  have "per_mil_done p = 0 \<and>
        drbd_warn p = Some (repl_state d, bits_left p, rs_total d, rs_failed d)"
    if "rs_total d < bits_left p"
    using run that by (rule gsp_warn_branch)
  with run bl w show ?thesis by blast
qed

text \<open>Claim C2, witness: the 64-bit device with 1000001 bits left of 1000000.\<close>

theorem remaining_exceeds_total_witness:
  "\<exists>p. drbd_get_syncer_progress (dev64\<lparr>bm_total_weight := 1000001\<rparr>) = Inr p \<and>
       rs_total (dev64\<lparr>bm_total_weight := 1000001\<rparr>) < bits_left p \<and>
       bits_left p = 1000001 \<and> per_mil_done p = 0 \<and>
       drbd_warn p = Some (L_SYNC_TARGET, 1000001, 1000000, 0)"
  using remaining_exceeds_total [of "dev64\<lparr>bm_total_weight := 1000001\<rparr>"]
  by (auto simp add: dev64_def)

text \<open>
  Claim C3. With an \<^verbatim>\<open>unsigned long\<close> of at least 32 bits, a total of at most \<open>2 ^ 38\<close>
  bits and no more bits left than the total, the block of lines 105 to 109 returns, the shift
  is 16 when the total exceeds \<^verbatim>\<open>UINT_MAX\<close> and 10 otherwise, and every value it computes
  (\<^verbatim>\<open>left\<close>, \<^verbatim>\<open>total\<close>, the product \<^verbatim>\<open>left * 1000\<close>, the quotient and \<^verbatim>\<open>tmp\<close>) is the
  exact integer value and is below \<open>2 ^ 32\<close>; so line 108 with every value reduced modulo
  \<open>2 ^ 32\<close> gives the same \<^verbatim>\<open>tmp\<close>.
\<close>

theorem per_mil_fits_32_bits:
  fixes bl rs_tot :: "'l::len word"
  assumes len: "32 \<le> LENGTH('l)"
    and tot: "unat rs_tot \<le> 2 ^ 38"
    and le: "bl \<le> rs_tot"
  shows "\<exists>l. per_mil_calc bl rs_tot = Inr l \<and>
           pm_shift l = (if 4294967295 < unat rs_tot then 16 else 10) \<and>
           unat (pm_left l) = unat bl div 2 ^ pm_shift l \<and>
           unat (pm_left l) < 2 ^ 32 \<and>
           unat (pm_total l) = 1 + unat rs_tot div 2 ^ pm_shift l \<and>
           unat (pm_total l) < 2 ^ 32 \<and>
           unat (pm_left l * 1000) = unat (pm_left l) * 1000 \<and>
           unat (pm_left l) * 1000 < 2 ^ 32 \<and>
           unat (pm_left l * 1000 div pm_total l) =
             unat (pm_left l) * 1000 div unat (pm_total l) \<and>
           unat (pm_left l) * 1000 div unat (pm_total l) < 2 ^ 32 \<and>
           unat (pm_tmp l) = 1000 - unat (pm_left l) * 1000 div unat (pm_total l) \<and>
           unat (pm_tmp l) < 2 ^ 32 \<and>
           (1000 + 2 ^ 32 -
              (unat (pm_left l) mod 2 ^ 32 * 1000 mod 2 ^ 32) div
              (unat (pm_total l) mod 2 ^ 32)) mod 2 ^ 32 = unat (pm_tmp l)"
proof -
  obtain l where l: "per_mil_calc bl rs_tot = Inr l"
    and sh: "pm_shift l = (if 4294967295 < unat rs_tot then 16 else 10)"
    and L: "unat (pm_left l) = unat bl div 2 ^ pm_shift l"
    and T: "unat (pm_total l) = 1 + unat rs_tot div 2 ^ pm_shift l"
    and P: "unat (pm_left l * 1000) = unat (pm_left l) * 1000"
    and Qd: "unat (pm_left l * 1000 div pm_total l) =
               unat (pm_left l) * 1000 div unat (pm_total l)"
    and Q: "unat (pm_left l) * 1000 div unat (pm_total l) \<le> 999"
    and D: "unat (pm_tmp l) = 1000 - unat (pm_left l) * 1000 div unat (pm_total l)"
    using per_mil_calc_exact [OF len le] by blast
  have ble: "unat bl \<le> unat rs_tot" using le by (simp add: word_le_nat_alt)
  have tb: "unat rs_tot div 2 ^ pm_shift l \<le> 4194304"
  proof (cases "4294967295 < unat rs_tot")
    case True
    then have "pm_shift l = 16" using sh by simp
    moreover have "unat rs_tot div 2 ^ 16 \<le> 2 ^ 38 div 2 ^ 16"
      using tot by (rule div_le_mono)
    ultimately show ?thesis by simp
  next
    case False
    then have "pm_shift l = 10" and "unat rs_tot \<le> 4294967295" using sh by simp_all
    moreover from this(2) have "unat rs_tot div 2 ^ 10 \<le> 4294967295 div 2 ^ 10"
      by (rule div_le_mono)
    ultimately show ?thesis by simp
  qed
  have "unat bl div 2 ^ pm_shift l \<le> unat rs_tot div 2 ^ pm_shift l"
    using ble by (rule div_le_mono)
  with tb have lb: "unat (pm_left l) \<le> 4194304" using L by simp
  have b1: "unat (pm_left l) < 2 ^ 32" using lb by simp
  have b2: "unat (pm_total l) < 2 ^ 32" using tb T by simp
  have b3: "unat (pm_left l) * 1000 < 2 ^ 32" using lb by simp
  have b4: "unat (pm_left l) * 1000 div unat (pm_total l) < 2 ^ 32" using Q by simp
  have b5: "unat (pm_tmp l) < 2 ^ 32" using D by simp
  have b6: "(1000 + 2 ^ 32 -
              (unat (pm_left l) mod 2 ^ 32 * 1000 mod 2 ^ 32) div
              (unat (pm_total l) mod 2 ^ 32)) mod 2 ^ 32 = unat (pm_tmp l)"
    unfolding D using b3 b2 Q by (rule wrapped_equals_exact)
  from l sh L T P Qd D b1 b2 b3 b4 b5 b6 show ?thesis by blast
qed

text \<open>
  Claim C3, witness: \<open>2 ^ 38\<close> bits in total, all of them left, on the 64-bit kernel; the
  product is 4194304000.
\<close>

theorem per_mil_fits_32_bits_witness:
  "32 \<le> LENGTH(64) \<and> unat (274877906944 :: 64 word) \<le> 2 ^ 38 \<and>
   (274877906944 :: 64 word) \<le> 274877906944 \<and>
   per_mil_calc (274877906944 :: 64 word) 274877906944 =
     Inr \<lparr>pm_shift = 16, pm_left = 4194304, pm_total = 4194305, pm_tmp = 1\<rparr> \<and>
   unat (4194304 * 1000 :: 64 word) = 4194304000 \<and> (4194304000 :: nat) < 2 ^ 32"
proof -
  have len: "32 \<le> LENGTH(64)" by simp
  have tot: "unat (274877906944 :: 64 word) \<le> 2 ^ 38" by simp
  have le: "(274877906944 :: 64 word) \<le> 274877906944" by simp
  show ?thesis
    using len tot le per_mil_fits_32_bits [OF len tot le]
    by (simp add: per_mil_calc_def UINT_MAX_def udiv_def Let_def)
qed

section \<open>Properties of \<^verbatim>\<open>drbd_syncer_progress\<close>\<close>

text \<open>
  Claim C4. With the constants and the marks in order, \<^verbatim>\<open>drbd_syncer_progress\<close> returns
  and its local \<^verbatim>\<open>stalled\<close> is set exactly when the seconds elapsed since the mark at index
  \<^verbatim>\<open>(rs_last_mark + 2) % DRBD_SYNC_MARKS\<close>, that is the ticks \<^verbatim>\<open>jiffies - rs_mark_time[i]\<close>
  divided by \<^verbatim>\<open>HZ\<close>, exceed \<^verbatim>\<open>DRBD_SYNC_MARKS * DRBD_SYNC_MARK_STEP\<close>.
\<close>

theorem stalled_iff:
  fixes cfg :: "'l::len kconfig"
  assumes len: "32 \<le> LENGTH('l)" and ok: "kconfig_ok cfg" and mk: "marks_ok cfg d"
  shows "\<exists>r. drbd_syncer_progress cfg j d = Inr r \<and>
           s_stalled (r_short r) =
             (nat (DRBD_SYNC_MARKS cfg * DRBD_SYNC_MARK_STEP cfg) <
              unat (j - rs_mark_time d ! nat ((rs_last_mark d + 2) mod DRBD_SYNC_MARKS cfg)) div
                nat (HZ cfg))"
proof -
  obtain r and p :: "'l syncer_progress" where r: "drbd_syncer_progress cfg j d = Inr r"
    and sw: "short_window cfg j d (bits_left p) = Inr (r_short r)"
    using drbd_syncer_progress_result [OF len ok mk, where j=j] by blast
  obtain sw' where sw': "short_window cfg j d (bits_left p) = Inr sw'"
    and st: "s_stalled sw' =
             (word_of_int (DRBD_SYNC_MARK_STEP cfg * DRBD_SYNC_MARKS cfg) <
              (j - rs_mark_time d ! nat ((rs_last_mark d + 2) mod DRBD_SYNC_MARKS cfg)) div
                word_of_int (HZ cfg))"
    using short_window_result [OF len ok mk, where j=j and rs_left="bits_left p"] by blast
  have eq: "sw' = r_short r" using sw sw' by simp
  have b: "0 \<le> DRBD_SYNC_MARK_STEP cfg * DRBD_SYNC_MARKS cfg"
    "DRBD_SYNC_MARK_STEP cfg * DRBD_SYNC_MARKS cfg \<le> INT_MAX"
    using ok by (simp_all add: kconfig_ok_def)
  have t: "unat (word_of_int (DRBD_SYNC_MARK_STEP cfg * DRBD_SYNC_MARKS cfg) :: 'l word) =
           nat (DRBD_SYNC_MARKS cfg * DRBD_SYNC_MARK_STEP cfg)"
    using unat_word_of_int [OF b(1) int_fits_long [OF len b(2)]] by (simp add: mult.commute)
  have "s_stalled (r_short r) =
        (unat (word_of_int (DRBD_SYNC_MARK_STEP cfg * DRBD_SYNC_MARKS cfg) :: 'l word) <
         unat ((j - rs_mark_time d ! nat ((rs_last_mark d + 2) mod DRBD_SYNC_MARKS cfg)) div
                word_of_int (HZ cfg)))"
    using st eq by (simp only: word_less_nat_alt)
  then have "s_stalled (r_short r) =
             (nat (DRBD_SYNC_MARKS cfg * DRBD_SYNC_MARK_STEP cfg) <
              unat (j - rs_mark_time d ! nat ((rs_last_mark d + 2) mod DRBD_SYNC_MARKS cfg)) div
                nat (HZ cfg))"
    by (simp only: t unat_div HZ_to_long(1) [OF len ok])
  with r show ?thesis by blast
qed

text \<open>
  Claim C4, witness: with 8 marks and a step of 3 the threshold is 24 seconds; mark 5 of
  the 64-bit device was taken at tick 5500, so at tick 11500 exactly 24 seconds have elapsed
  (not stalled) and at tick 11750 there are 25 (stalled).
\<close>

theorem stalled_iff_witness:
  "32 \<le> LENGTH(64) \<and> kconfig_ok cfg64 \<and> marks_ok cfg64 dev64 \<and>
   (\<exists>r. drbd_syncer_progress cfg64 11500 dev64 = Inr r \<and> \<not> s_stalled (r_short r)) \<and>
   (\<exists>r. drbd_syncer_progress cfg64 11750 dev64 = Inr r \<and> s_stalled (r_short r))"
proof -
  have len: "32 \<le> LENGTH(64)" by simp
  have mk: "marks_ok cfg64 dev64" using dev64_marks_ok [of 250000] by (simp add: dev64_def)
  have i: "nat ((rs_last_mark dev64 + 2) mod DRBD_SYNC_MARKS cfg64) = 5"
    by (simp add: dev64_def cfg64_def)
  have v: "rs_mark_time dev64 ! 5 = 5500" by (simp add: dev64_def)
  have c: "nat (DRBD_SYNC_MARKS cfg64 * DRBD_SYNC_MARK_STEP cfg64) = 24" "nat (HZ cfg64) = 250"
    by (simp_all add: cfg64_def)
  show ?thesis
    using len cfg64_ok mk stalled_iff [OF len cfg64_ok mk, of 11500]
      stalled_iff [OF len cfg64_ok mk, of 11750]
    by (simp add: i v c)
qed

text \<open>
  Claim C5 states the remaining time as the two-stage expression over the integers. The
  divisions of line 179 are floor divisions and the \<open>+ 1\<close> does not wrap (lemma
  \<open>rt_calc_modulo\<close>), but the product is taken modulo \<open>2 ^ w\<close>. On the 32-bit kernel, with
  \<open>dt = 25\<close>, \<open>rs_left = 2 ^ 28\<close> and \<open>db = 0\<close>, the product \<open>25 * 2 ^ 28\<close> is 2415919104
  modulo \<open>2 ^ 32\<close> and line 179 stores 24159191, where the expression is 67108864. The
  32-bit device at tick 6250 reaches line 179 with these values.
\<close>

theorem rt_calc_wraps_on_32_bits:
  "rt_calc (25 :: 32 word) 268435456 0 = Inr 24159191 \<and>
   unat (24159191 :: 32 word) \<noteq> 25 * (268435456 div (0 div 100 + 1)) div 100 \<and>
   \<not> isl (drbd_syncer_progress cfg32 6250 dev32) \<and>
   s_dt (r_short (projr (drbd_syncer_progress cfg32 6250 dev32))) = 25 \<and>
   r_rs_left (projr (drbd_syncer_progress cfg32 6250 dev32)) = 268435456 \<and>
   s_db (r_short (projr (drbd_syncer_progress cfg32 6250 dev32))) = 0 \<and>
   s_rt (r_short (projr (drbd_syncer_progress cfg32 6250 dev32))) = 24159191"
  by (simp add: rt_calc_def udiv_def drbd_syncer_progress_def cfg32_def dev32_def
      drbd_get_syncer_progress_def per_mil_calc_def UINT_MAX_def Let_def short_window_def
      int_add_def int_sub_def INT_MAX_def int_rem_def array_read_def window_rate_def
      very_short_window_def long_window_def sector_pos_def)

text \<open>
  Claim C6. For an elapsed time \<open>dt \<ge> 1\<close>, the quotient \<^verbatim>\<open>db/dt\<close> is computed without a
  fault and is the floor of the exact quotient; for a fixed \<open>dt\<close> it does not decrease when
  \<open>db\<close> grows, and for a fixed \<open>db\<close> it does not increase when \<open>dt\<close> grows.
\<close>

theorem window_rate_monotone:
  fixes dt db :: "'l::len word"
  assumes dt: "1 \<le> dt"
  shows "(\<exists>q. window_rate db dt = Inr q \<and> unat q = unat db div unat dt) \<and>
         (db \<le> db' \<longrightarrow>
            (\<exists>q q'. window_rate db dt = Inr q \<and> window_rate db' dt = Inr q' \<and> q \<le> q')) \<and>
         (dt \<le> dt' \<longrightarrow>
            (\<exists>q q'. window_rate db dt = Inr q \<and> window_rate db dt' = Inr q' \<and> q' \<le> q))"
proof -
  have nz: "dt \<noteq> 0" using dt by auto
  have pos: "0 < unat dt" using nz by (simp add: unat_gt_0)
  have q: "window_rate db dt = Inr (db div dt)" using nz by (rule window_rate_result)
  have a: "\<exists>q. window_rate db dt = Inr q \<and> unat q = unat db div unat dt"
    using q by (simp add: unat_div)
  have b: "\<exists>q q'. window_rate db dt = Inr q \<and> window_rate db' dt = Inr q' \<and> q \<le> q'"
    if le: "db \<le> db'"
  proof -
    have "unat db \<le> unat db'" using le by (simp add: word_le_nat_alt)
    then have "unat db div unat dt \<le> unat db' div unat dt" by (rule div_le_mono)
    then have "db div dt \<le> db' div dt" by (simp add: word_le_nat_alt unat_div)
    then show ?thesis using q window_rate_result [OF nz, of db'] by simp
  qed
  have c: "\<exists>q q'. window_rate db dt = Inr q \<and> window_rate db dt' = Inr q' \<and> q' \<le> q"
    if le: "dt \<le> dt'"
  proof -
    have nz': "dt' \<noteq> 0" using le nz by auto
    have "unat dt \<le> unat dt'" using le by (simp add: word_le_nat_alt)
    then have "unat db div unat dt' \<le> unat db div unat dt" using pos by (intro div_le_mono2)
    then have "db div dt' \<le> db div dt" by (simp add: word_le_nat_alt unat_div)
    then show ?thesis using q window_rate_result [OF nz', of db] by simp
  qed
  from a b c show ?thesis by blast
qed

text \<open>Claim C6, witness: 50000 and 60000 bits in 18 seconds, and 50000 bits in 36.\<close>

theorem window_rate_monotone_witness:
  "(1 :: 64 word) \<le> 18 \<and> (50000 :: 64 word) \<le> 60000 \<and> (18 :: 64 word) \<le> 36 \<and>
   window_rate (50000 :: 64 word) 18 = Inr 2777 \<and>
   window_rate (60000 :: 64 word) 18 = Inr 3333 \<and>
   window_rate (50000 :: 64 word) 36 = Inr 1388"
proof -
  have dt: "(1 :: 64 word) \<le> 18" by simp
  show ?thesis
    using dt window_rate_monotone [OF dt, of 50000 60000 36]
    by (simp add: window_rate_def udiv_def)
qed

text \<open>
  Claim C7. With an \<^verbatim>\<open>unsigned long\<close> of at least 32 bits and the constants in order
  (\<^verbatim>\<open>HZ\<close> and \<^verbatim>\<open>DRBD_SYNC_MARKS\<close> positive), no division or remainder of the report has a
  zero divisor, on any device and at any tick: \<^verbatim>\<open>drbd_syncer_progress\<close> never ends in
  \<open>DivideByZero\<close>, and it returns when the marks are in order; the divisors
  \<^verbatim>\<open>1UL + (rs_total >> shift)\<close>, \<^verbatim>\<open>db/100+1\<close> and \<^verbatim>\<open>bm_bits/100+1\<close> are not 0, and the
  \<^verbatim>\<open>dt\<close> of each window is not 0 when it divides. The precondition \<open>total > 0\<close> is not
  needed.
\<close>

theorem no_division_by_zero:
  fixes cfg :: "'l::len kconfig" and bl rs_tot dt rs_left db :: "'l word"
  assumes len: "32 \<le> LENGTH('l)" and ok: "kconfig_ok cfg"
  shows "drbd_syncer_progress cfg j d \<noteq> Inl DivideByZero \<and>
         (marks_ok cfg d \<longrightarrow> (\<exists>r. drbd_syncer_progress cfg j d = Inr r)) \<and>
         (\<exists>p. drbd_get_syncer_progress d = Inr p) \<and>
         (\<exists>l. per_mil_calc bl rs_tot = Inr l \<and> pm_total l \<noteq> 0) \<and>
         db div 100 + 1 \<noteq> 0 \<and>
         (\<exists>rt. rt_calc dt rs_left db = Inr rt) \<and>
         short_window cfg j d rs_left \<noteq> Inl DivideByZero \<and>
         (marks_ok cfg d \<longrightarrow>
            (\<exists>sw. short_window cfg j d rs_left = Inr sw \<and> s_dt sw \<noteq> 0)) \<and>
         very_short_window cfg j d rs_left \<noteq> Inl DivideByZero \<and>
         (marks_ok cfg d \<longrightarrow>
            (\<exists>w. very_short_window cfg j d rs_left = Inr w \<and> w_dt w \<noteq> 0)) \<and>
         (\<exists>w. long_window cfg j d rs_left = Inr w \<and> w_dt w \<noteq> 0) \<and>
         bm_bits d div 100 + 1 \<noteq> 0 \<and>
         (\<exists>s. sector_pos cfg d = Inr s)"
proof -
  have a: "drbd_syncer_progress cfg j d \<noteq> Inl DivideByZero"
    by (rule drbd_syncer_progress_no_div0 [OF len ok])
  have b: "\<exists>r. drbd_syncer_progress cfg j d = Inr r" if "marks_ok cfg d"
    using drbd_syncer_progress_result [OF len ok that, of j] by blast
  have c: "\<exists>p. drbd_get_syncer_progress d = Inr p" using gsp_returns [of d] by blast
  have e: "\<exists>l. per_mil_calc bl rs_tot = Inr l \<and> pm_total l \<noteq> 0"
  proof -
    have "1 + drop_bit (if rs_tot > ucast UINT_MAX then 16 else 10) rs_tot \<noteq> 0"
      by (rule total_nonzero) simp
    then show ?thesis by (simp add: per_mil_calc_def Let_def udiv_def)
  qed
  have f: "db div 100 + 1 \<noteq> 0" by (rule div_100_succ_nonzero [OF len])
  have g: "\<exists>rt. rt_calc dt rs_left db = Inr rt" by (simp add: rt_calc_result(1) [OF len])
  have h: "short_window cfg j d rs_left \<noteq> Inl DivideByZero"
    by (rule short_window_no_div0 [OF len ok])
  have i: "\<exists>sw. short_window cfg j d rs_left = Inr sw \<and> s_dt sw \<noteq> 0" if "marks_ok cfg d"
    using short_window_result [OF len ok that, of j rs_left] by blast
  have k: "very_short_window cfg j d rs_left \<noteq> Inl DivideByZero"
    by (rule very_short_window_no_div0 [OF len ok])
  have l: "\<exists>w. very_short_window cfg j d rs_left = Inr w \<and> w_dt w \<noteq> 0" if "marks_ok cfg d"
    using very_short_window_result [OF len ok that, of j rs_left] by blast
  have m: "\<exists>w. long_window cfg j d rs_left = Inr w \<and> w_dt w \<noteq> 0"
    using long_window_result [OF len ok, of j d rs_left] by blast
  have n: "bm_bits d div 100 + 1 \<noteq> 0" by (rule div_100_succ_nonzero [OF len])
  have o: "\<exists>s. sector_pos cfg d = Inr s" by (rule sector_pos_returns [OF len])
  from a b c e f g h i k l m n o show ?thesis by blast
qed

text \<open>Claim C7, witness: the 64-bit device at tick 10000, with its three windows.\<close>

theorem no_division_by_zero_witness:
  "32 \<le> LENGTH(64) \<and> kconfig_ok cfg64 \<and> marks_ok cfg64 dev64 \<and>
   (\<exists>r. drbd_syncer_progress cfg64 10000 dev64 = Inr r) \<and>
   (\<exists>sw. short_window cfg64 10000 dev64 250000 = Inr sw \<and> s_dt sw = 18) \<and>
   (\<exists>w. very_short_window cfg64 10000 dev64 250000 = Inr w \<and> w_dt w = 3) \<and>
   (\<exists>w. long_window cfg64 10000 dev64 250000 = Inr w \<and> w_dt w = 40)"
proof -
  have len: "32 \<le> LENGTH(64)" by simp
  have mk: "marks_ok cfg64 dev64" using dev64_marks_ok [of 250000] by (simp add: dev64_def)
  have s: "short_window cfg64 10000 dev64 250000 =
      Inr \<lparr>s_stalled = False, s_dt = 18, s_db = 50000, s_rt = 89, s_dbdt = 11108\<rparr>"
    by (simp add: short_window_def cfg64_def dev64_def int_add_def INT_MAX_def int_rem_def
        array_read_def udiv_def rt_calc_def window_rate_def Let_def)
  have v: "very_short_window cfg64 10000 dev64 250000 =
      Inr \<lparr>w_dt = 3, w_db = 10000, w_dbdt = 13332\<rparr>"
    by (simp add: very_short_window_def cfg64_def dev64_def int_add_def int_sub_def
        INT_MAX_def int_rem_def array_read_def udiv_def window_rate_def Let_def)
  have l: "long_window cfg64 10000 dev64 250000 =
      Inr \<lparr>w_dt = 40, w_db = 750000, w_dbdt = 75000\<rparr>"
    by (simp add: long_window_def cfg64_def dev64_def udiv_def window_rate_def Let_def)
  show ?thesis
    using len cfg64_ok mk
      no_division_by_zero [OF len cfg64_ok, of 10000 dev64 0 0 0 0 250000]
    by (simp add: s v l)
qed

text \<open>
  Claim C8 asks for 20 cells at every per-mille value. The code prints 21 cells for the
  values 0 to 49 (one \<^verbatim>\<open>>\<close> and 20 dots, lemma \<open>bar_cells_below_50\<close>) and 20 cells from 50
  on (lemma \<open>bar_cells_from_50\<close>). The bars at 0, 49, 50, 500 and 1000:
\<close>

theorem bar_cells_examples:
  "bar_cells 0 = ''>....................'' \<and> length (bar_cells 0) = 21 \<and>
   bar_cells 49 = ''>....................'' \<and>
   bar_cells 50 = ''>...................'' \<and> length (bar_cells 50) = 20 \<and>
   bar_cells 500 = ''=========>..........'' \<and>
   bar_cells 1000 = ''===================>''"
  by code_simp

text \<open>
  Claim C9. With an \<^verbatim>\<open>unsigned long\<close> of at least 32 bits, \<^verbatim>\<open>drbd_get_syncer_progress\<close>
  returns on every device; when the bits left do not exceed the total the per-mille value
  is at least 1; so the value is 0 exactly when \<^verbatim>\<open>*bits_left > rs_total\<close>, which is exactly
  when the \<^verbatim>\<open>drbd_warn\<close> call is made.
\<close>

theorem per_mil_done_zero_iff_warned:
  fixes d :: "'l::len drbd_device"
  assumes len: "32 \<le> LENGTH('l)"
  shows "\<exists>p. drbd_get_syncer_progress d = Inr p \<and>
           (bits_left p \<le> rs_total d \<longrightarrow> 1 \<le> unat (per_mil_done p)) \<and>
           (per_mil_done p = 0) = (rs_total d < bits_left p) \<and>
           (per_mil_done p = 0) = (drbd_warn p \<noteq> None)"
proof -
  obtain p where run: "drbd_get_syncer_progress d = Inr p"
    and w: "(drbd_warn p \<noteq> None) = (rs_total d < bits_left p)"
    using gsp_returns [of d] by blast
  have pos: "1 \<le> unat (per_mil_done p)" if le: "bits_left p \<le> rs_total d"
  proof -
    obtain l where l: "per_mil_calc (bits_left p) (rs_total d) = Inr l"
      and u: "unat (per_mil_done p) = unat (pm_tmp l)"
      using gsp_else_branch [OF len run le] by blast
    obtain l' where l': "per_mil_calc (bits_left p) (rs_total d) = Inr l'"
      and Q: "unat (pm_left l') * 1000 div unat (pm_total l') \<le> 999"
      and D: "unat (pm_tmp l') = 1000 - unat (pm_left l') * 1000 div unat (pm_total l')"
      using per_mil_calc_exact [OF len le] by blast
    have "l' = l" using l l' by simp
    then show ?thesis using u Q D by simp
  qed
  have zero: "per_mil_done p = 0" if "rs_total d < bits_left p"
    using gsp_warn_branch [OF run that] by simp
  have iff: "(per_mil_done p = 0) = (rs_total d < bits_left p)"
  proof
    assume z: "per_mil_done p = 0"
    show "rs_total d < bits_left p"
    proof (rule ccontr)
      assume "\<not> rs_total d < bits_left p"
      then have "bits_left p \<le> rs_total d" by simp
      then have "1 \<le> unat (per_mil_done p)" by (rule pos)
      then show False using z by simp
    qed
  next
    assume "rs_total d < bits_left p"
    then show "per_mil_done p = 0" by (rule zero)
  qed
  from run pos iff w show ?thesis by simp
qed

text \<open>Claim C9, witness: the 64-bit device with all of its 1000000 bits left.\<close>

theorem per_mil_done_zero_iff_warned_witness:
  "32 \<le> LENGTH(64) \<and>
   (\<exists>p. drbd_get_syncer_progress (dev64\<lparr>bm_total_weight := 1000000\<rparr>) = Inr p \<and>
        bits_left p \<le> rs_total (dev64\<lparr>bm_total_weight := 1000000\<rparr>) \<and>
        per_mil_done p = 2 \<and> drbd_warn p = None)"
proof -
  have len: "32 \<le> LENGTH(64)" by simp
  have e: "drbd_get_syncer_progress (dev64\<lparr>bm_total_weight := 1000000\<rparr>) =
      Inr \<lparr>bits_left = 1000000, per_mil_done = 2, drbd_warn = None\<rparr>"
    by (simp add: drbd_get_syncer_progress_def per_mil_calc_def dev64_def UINT_MAX_def
        udiv_def Let_def)
  have t: "rs_total (dev64\<lparr>bm_total_weight := 1000000\<rparr>) = 1000000"
    by (simp add: dev64_def)
  show ?thesis
    using len per_mil_done_zero_iff_warned [OF len, of "dev64\<lparr>bm_total_weight := 1000000\<rparr>"]
    by (simp add: e t)
qed

text \<open>
  Claim C10. With the constants and the marks in order, on every device whose mark at
  index \<^verbatim>\<open>(rs_last_mark + 2) % DRBD_SYNC_MARKS\<close> recorded fewer bits left than are left now,
  \<^verbatim>\<open>db\<close> is the difference modulo \<open>2 ^ w\<close>, that is \<open>2 ^ w\<close> minus the bits added, and not 0;
  the speed and the remaining time of the report are computed from this \<^verbatim>\<open>db\<close>. The same
  holds for the window of lines 191 to 196 and its mark.
\<close>

theorem db_wraps_around:
  fixes cfg :: "'l::len kconfig" and p :: "'l syncer_progress"
  assumes len: "32 \<le> LENGTH('l)" and ok: "kconfig_ok cfg" and mk: "marks_ok cfg d"
    and run: "drbd_get_syncer_progress d = Inr p"
    and more: "rs_mark_left d ! nat ((rs_last_mark d + 2) mod DRBD_SYNC_MARKS cfg) < bits_left p"
  shows "\<exists>r. drbd_syncer_progress cfg j d = Inr r \<and> r_rs_left r = bits_left p \<and>
           s_db (r_short r) =
             rs_mark_left d ! nat ((rs_last_mark d + 2) mod DRBD_SYNC_MARKS cfg) - bits_left p \<and>
           unat (s_db (r_short r)) =
             2 ^ LENGTH('l) -
             (unat (bits_left p) -
              unat (rs_mark_left d ! nat ((rs_last_mark d + 2) mod DRBD_SYNC_MARKS cfg))) \<and>
           s_db (r_short r) \<noteq> 0 \<and>
           s_dbdt (r_short r) = Bit2KB cfg (s_db (r_short r) div s_dt (r_short r)) \<and>
           s_rt (r_short r) =
             s_dt (r_short r) * (bits_left p div (s_db (r_short r) div 100 + 1)) div 100 \<and>
           (1 \<le> proc_details cfg \<and>
            rs_mark_left d !
              nat ((rs_last_mark d + DRBD_SYNC_MARKS cfg - 1) mod DRBD_SYNC_MARKS cfg)
              < bits_left p \<longrightarrow>
            (\<exists>w. r_very_short r = Some w \<and>
                 unat (w_db w) =
                   2 ^ LENGTH('l) -
                   (unat (bits_left p) -
                    unat (rs_mark_left d !
                      nat ((rs_last_mark d + DRBD_SYNC_MARKS cfg - 1) mod
                           DRBD_SYNC_MARKS cfg))) \<and>
                 w_db w \<noteq> 0 \<and>
                 w_dbdt w = Bit2KB cfg (w_db w div w_dt w)))"
proof -
  obtain r and p' :: "'l syncer_progress" where r: "drbd_syncer_progress cfg j d = Inr r"
    and p': "drbd_get_syncer_progress d = Inr p'"
    and rl: "r_rs_left r = bits_left p'"
    and sw: "short_window cfg j d (bits_left p') = Inr (r_short r)"
    and vs: "if proc_details cfg \<ge> 1
             then \<exists>w. very_short_window cfg j d (bits_left p') = Inr w \<and> r_very_short r = Some w
             else r_very_short r = None"
    using drbd_syncer_progress_result [OF len ok mk, where j=j] by blast
  have pp: "p' = p" using run p' by simp
  obtain sw' where sw': "short_window cfg j d (bits_left p) = Inr sw'"
    and db: "s_db sw' =
      rs_mark_left d ! nat ((rs_last_mark d + 2) mod DRBD_SYNC_MARKS cfg) - bits_left p"
    and rt: "s_rt sw' = s_dt sw' * (bits_left p div (s_db sw' div 100 + 1)) div 100"
    and sp: "s_dbdt sw' = Bit2KB cfg (s_db sw' div s_dt sw')"
    using short_window_result [OF len ok mk, where j=j and rs_left="bits_left p"] by blast
  have eq: "sw' = r_short r" using sw sw' pp by simp
  note w1 = unat_sub_wraps [OF more]
  have short: "r_rs_left r = bits_left p \<and>
           s_db (r_short r) =
             rs_mark_left d ! nat ((rs_last_mark d + 2) mod DRBD_SYNC_MARKS cfg) - bits_left p \<and>
           unat (s_db (r_short r)) =
             2 ^ LENGTH('l) -
             (unat (bits_left p) -
              unat (rs_mark_left d ! nat ((rs_last_mark d + 2) mod DRBD_SYNC_MARKS cfg))) \<and>
           s_db (r_short r) \<noteq> 0 \<and>
           s_dbdt (r_short r) = Bit2KB cfg (s_db (r_short r) div s_dt (r_short r)) \<and>
           s_rt (r_short r) =
             s_dt (r_short r) * (bits_left p div (s_db (r_short r) div 100 + 1)) div 100"
    using rl pp db rt sp eq w1 by auto
  have vshort: "\<exists>w. r_very_short r = Some w \<and>
                 unat (w_db w) =
                   2 ^ LENGTH('l) -
                   (unat (bits_left p) -
                    unat (rs_mark_left d !
                      nat ((rs_last_mark d + DRBD_SYNC_MARKS cfg - 1) mod
                           DRBD_SYNC_MARKS cfg))) \<and>
                 w_db w \<noteq> 0 \<and>
                 w_dbdt w = Bit2KB cfg (w_db w div w_dt w)"
    if det: "1 \<le> proc_details cfg"
    and more': "rs_mark_left d !
              nat ((rs_last_mark d + DRBD_SYNC_MARKS cfg - 1) mod DRBD_SYNC_MARKS cfg)
              < bits_left p"
  proof -
    obtain w where w: "very_short_window cfg j d (bits_left p) = Inr w"
      and rw: "r_very_short r = Some w"
      using vs det pp by auto
    obtain w' where w': "very_short_window cfg j d (bits_left p) = Inr w'"
      and db': "w_db w' =
        rs_mark_left d !
          nat ((rs_last_mark d + DRBD_SYNC_MARKS cfg - 1) mod DRBD_SYNC_MARKS cfg) - bits_left p"
      and sp': "w_dbdt w' = Bit2KB cfg (w_db w' div w_dt w')"
      using very_short_window_result [OF len ok mk, where j=j and rs_left="bits_left p"]
      by blast
    have "w' = w" using w w' by simp
    then show ?thesis using rw db' sp' unat_sub_wraps [OF more'] by auto
  qed
  from r short vshort show ?thesis by blast
qed

text \<open>
  Claim C10, witness: the 64-bit device with 310000 bits left, 10000 more than mark 5
  and 50000 more than mark 2 recorded; \<^verbatim>\<open>db\<close> is \<open>2 ^ 64 - 10000\<close>, the speed
  4099276460824342580 and the remaining time 0.
\<close>

theorem db_wraps_around_witness:
  "32 \<le> LENGTH(64) \<and> kconfig_ok cfg64 \<and> marks_ok cfg64 (dev64\<lparr>bm_total_weight := 310000\<rparr>) \<and>
   drbd_get_syncer_progress (dev64\<lparr>bm_total_weight := 310000\<rparr>) =
     Inr \<lparr>bits_left = 310000, per_mil_done = 691, drbd_warn = None\<rparr> \<and>
   rs_mark_left (dev64\<lparr>bm_total_weight := 310000\<rparr>) !
     nat ((rs_last_mark (dev64\<lparr>bm_total_weight := 310000\<rparr>) + 2) mod DRBD_SYNC_MARKS cfg64)
     < (310000 :: 64 word) \<and>
   1 \<le> proc_details cfg64 \<and>
   rs_mark_left (dev64\<lparr>bm_total_weight := 310000\<rparr>) !
     nat ((rs_last_mark (dev64\<lparr>bm_total_weight := 310000\<rparr>) + DRBD_SYNC_MARKS cfg64 - 1) mod
          DRBD_SYNC_MARKS cfg64)
     < (310000 :: 64 word) \<and>
   (\<exists>r. drbd_syncer_progress cfg64 10000 (dev64\<lparr>bm_total_weight := 310000\<rparr>) = Inr r \<and>
        r_rs_left r = 310000 \<and> s_db (r_short r) = 18446744073709541616 \<and>
        s_dt (r_short r) = 18 \<and> s_dbdt (r_short r) = 4099276460824342580 \<and>
        s_rt (r_short r) = 0 \<and>
        r_very_short r =
          Some \<lparr>w_dt = 3, w_db = 18446744073709501616, w_dbdt = 6148914691236450536\<rparr>)"
proof -
  have len: "32 \<le> LENGTH(64)" by simp
  have mk: "marks_ok cfg64 (dev64\<lparr>bm_total_weight := 310000\<rparr>)" by (rule dev64_marks_ok)
  have run: "drbd_get_syncer_progress (dev64\<lparr>bm_total_weight := 310000\<rparr>) =
      Inr \<lparr>bits_left = 310000, per_mil_done = 691, drbd_warn = None\<rparr>"
    by (simp add: drbd_get_syncer_progress_def per_mil_calc_def dev64_def UINT_MAX_def
        udiv_def Let_def)
  have more: "rs_mark_left (dev64\<lparr>bm_total_weight := 310000\<rparr>) !
      nat ((rs_last_mark (dev64\<lparr>bm_total_weight := 310000\<rparr>) + 2) mod DRBD_SYNC_MARKS cfg64)
      < bits_left \<lparr>bits_left = 310000 :: 64 word, per_mil_done = 691, drbd_warn = None\<rparr>"
    by (simp add: dev64_def cfg64_def)
  have more': "1 \<le> proc_details cfg64 \<and>
      rs_mark_left (dev64\<lparr>bm_total_weight := 310000\<rparr>) !
      nat ((rs_last_mark (dev64\<lparr>bm_total_weight := 310000\<rparr>) + DRBD_SYNC_MARKS cfg64 - 1) mod
           DRBD_SYNC_MARKS cfg64)
      < (310000 :: 64 word)"
    by (simp add: dev64_def cfg64_def)
  have s: "short_window cfg64 10000 (dev64\<lparr>bm_total_weight := 310000\<rparr>) 310000 =
      Inr \<lparr>s_stalled = False, s_dt = 18, s_db = 18446744073709541616, s_rt = 0,
           s_dbdt = 4099276460824342580\<rparr>"
    by (simp add: short_window_def cfg64_def dev64_def int_add_def INT_MAX_def int_rem_def
        array_read_def udiv_def rt_calc_def window_rate_def Let_def)
  have v: "very_short_window cfg64 10000 (dev64\<lparr>bm_total_weight := 310000\<rparr>) 310000 =
      Inr \<lparr>w_dt = 3, w_db = 18446744073709501616, w_dbdt = 6148914691236450536\<rparr>"
    by (simp add: very_short_window_def cfg64_def dev64_def int_add_def int_sub_def
        INT_MAX_def int_rem_def array_read_def udiv_def window_rate_def Let_def)
  obtain r where r: "drbd_syncer_progress cfg64 10000 (dev64\<lparr>bm_total_weight := 310000\<rparr>) = Inr r"
    and rl: "r_rs_left r = 310000"
    using db_wraps_around [OF len cfg64_ok mk run more, of 10000] by auto
  obtain r' and p' :: "64 syncer_progress"
    where r': "drbd_syncer_progress cfg64 10000 (dev64\<lparr>bm_total_weight := 310000\<rparr>) = Inr r'"
    and p': "drbd_get_syncer_progress (dev64\<lparr>bm_total_weight := 310000\<rparr>) = Inr p'"
    and sw: "short_window cfg64 10000 (dev64\<lparr>bm_total_weight := 310000\<rparr>) (bits_left p') =
               Inr (r_short r')"
    and vs: "if proc_details cfg64 \<ge> 1
             then \<exists>w. very_short_window cfg64 10000 (dev64\<lparr>bm_total_weight := 310000\<rparr>)
                         (bits_left p') = Inr w \<and> r_very_short r' = Some w
             else r_very_short r' = None"
    using drbd_syncer_progress_result [OF len cfg64_ok mk, where j=10000] by blast
  have rr: "r' = r" using r r' by simp
  have bl: "bits_left p' = 310000" using p' run by auto
  have a: "r_short r = \<lparr>s_stalled = False, s_dt = 18, s_db = 18446744073709541616,
      s_rt = 0, s_dbdt = 4099276460824342580\<rparr>"
    using sw s rr bl by simp
  have b: "r_very_short r =
      Some \<lparr>w_dt = 3, w_db = 18446744073709501616, w_dbdt = 6148914691236450536\<rparr>"
    using vs v rr bl more' by auto
  from r rl a b len cfg64_ok mk run more more' show ?thesis by simp
qed

end
